theory Spec2Isabelle
  imports Main "HOL-Library.Word" "HOL-Library.Signed_Division"
begin

unbundle bit_operations_syntax

section \<open>Machine types, arrays and faults\<close>

text \<open>
  The C sources use fixed-width integers; they are words here, read with \<open>unat\<close>
  (unsigned) or \<open>sint\<close> (two's complement). An array is a list whose length is the
  declared size. C does not check array indices, so every indexed access of the model does:
  an access outside the array is a \<open>fault\<close>, and every function that touches an array
  returns \<open>fault + result\<close>.
\<close>

type_synonym u16 = "16 word"
type_synonym u32 = "32 word"
type_synonym u64 = "64 word"
type_synonym i8 = "8 word"
type_synonym i32 = "32 word"

datatype fault = LoadOutOfBounds nat | StoreOutOfBounds nat | NullPointer

definition bindF :: "fault + 'a \<Rightarrow> ('a \<Rightarrow> fault + 'b) \<Rightarrow> fault + 'b" where
  "bindF m f = (case m of Inl e \<Rightarrow> Inl e | Inr x \<Rightarrow> f x)"

definition load :: "'a list \<Rightarrow> u32 \<Rightarrow> fault + 'a" where
  "load a i = (if unat i < length a then Inr (a ! unat i) else Inl (LoadOutOfBounds (unat i)))"

definition store :: "u16 list \<Rightarrow> u32 \<Rightarrow> u16 \<Rightarrow> fault + u16 list" where
  "store a i v =
     (if unat i < length a then Inr (a[unat i := v]) else Inl (StoreOutOfBounds (unat i)))"

text \<open>
  \<open>memcpy(dst + doff, src + soff, n * sizeof(uint16_t))\<close> between two distinct arrays.
  The fault names the first index outside the array.
\<close>

definition memcpy_u16 :: "u16 list \<Rightarrow> nat \<Rightarrow> u16 list \<Rightarrow> nat \<Rightarrow> nat \<Rightarrow> fault + u16 list" where
  "memcpy_u16 dst doff src soff n =
     (if length src < soff + n then Inl (LoadOutOfBounds (max soff (length src)))
      else if length dst < doff + n then Inl (StoreOutOfBounds (max doff (length dst)))
      else Inr (take doff dst @ take n (drop soff src) @ drop (doff + n) dst))"

section \<open>The shared record of the overlay channel (thumbgrid_ipc.h)\<close>

record ThumbGridSharedState =
  sequence :: u32
  ime_active :: u32
  selected_cell :: i32
  current_page :: i32
  accent_mode :: u32
  "output" :: "u16 list"
  output_length :: u32
  text_cursor :: u32
  selected_all :: u32
  sel_start :: u32
  sel_end :: u32
  title :: "u16 list"
  page_name :: string
  cells :: "string list"
  offset_x :: i32
  offset_y :: i32
  shift_active :: u32

text \<open>The writer's two increments around a write.\<close>

definition thumbgrid_ipc_write_begin :: "ThumbGridSharedState \<Rightarrow> ThumbGridSharedState" where
  "thumbgrid_ipc_write_begin s = s\<lparr>sequence := sequence s + 1\<rparr>"

definition thumbgrid_ipc_write_end :: "ThumbGridSharedState \<Rightarrow> ThumbGridSharedState" where
  "thumbgrid_ipc_write_end s = s\<lparr>sequence := sequence s + 1\<rparr>"

text \<open>
  \<open>thumbgrid_ipc_read\<close> reads the volatile mapping three times: the counter, the whole
  record, the counter again. The writer lives in another process, so the three reads are
  three inputs of the model: \<open>seq1\<close>, the record as copied, \<open>seq2\<close>. The result is the
  return value and the contents of \<open>*dst\<close> afterwards.
\<close>

definition thumbgrid_ipc_read ::
  "u32 \<Rightarrow> ThumbGridSharedState \<Rightarrow> u32 \<Rightarrow> ThumbGridSharedState \<Rightarrow> int \<times> ThumbGridSharedState" where
  "thumbgrid_ipc_read seq1 src_copy seq2 dst =
     (if seq1 AND 1 \<noteq> 0 then (0, dst)
      else (if seq1 = seq2 then 1 else 0, src_copy))"

section \<open>The reader's poll loop (shell-overlay/src/main.c)\<close>

definition IPC_STALE_TIMEOUT_US :: u64 where
  "IPC_STALE_TIMEOUT_US = 2000000"

text \<open>
  The locals of \<open>poll_thread\<close> that survive an iteration, with the two globals that
  \<open>update_widgets\<close> writes: the cached record and the visibility of the grid panel.
  The widget properties that \<open>update_widgets\<close> sets besides are rendering and are not
  modelled.
\<close>

record poll_state =
  poll_count :: u32
  read_ok :: u32
  read_fail :: u32
  last_seq :: u32
  last_seq_change_us :: u64
  g_cached_state :: ThumbGridSharedState
  grid_visible :: bool

definition update_widgets :: "ThumbGridSharedState \<Rightarrow> poll_state \<Rightarrow> poll_state" where
  "update_widgets st p =
     (let vis =
        (if ime_active st \<noteq> 0 \<and> ime_active (g_cached_state p) = 0 then True
         else if ime_active st = 0 \<and> ime_active (g_cached_state p) \<noteq> 0 then False
         else grid_visible p)
      in p\<lparr>grid_visible := vis, g_cached_state := st\<rparr>)"

text \<open>
  What \<open>ipc_reader_open\<close> does once the file is mapped: the cached record is zeroed and
  the mapped record loses its counter and its active flag.
\<close>

definition zero_shared_state :: ThumbGridSharedState where
  "zero_shared_state =
     \<lparr>sequence = 0, ime_active = 0, selected_cell = 0, current_page = 0, accent_mode = 0,
      output = replicate 256 0, output_length = 0, text_cursor = 0, selected_all = 0,
      sel_start = 0, sel_end = 0, title = replicate 48 0, page_name = replicate 8 (CHR 0x00),
      cells = replicate 9 (replicate 4 (CHR 0x00)), offset_x = 0, offset_y = 0,
      shift_active = 0\<rparr>"

definition ipc_reader_open ::
  "poll_state \<Rightarrow> ThumbGridSharedState \<Rightarrow> poll_state \<times> ThumbGridSharedState" where
  "ipc_reader_open p m =
     (p\<lparr>g_cached_state := zero_shared_state\<rparr>, m\<lparr>sequence := 0, ime_active := 0\<rparr>)"

text \<open>
  One iteration of the \<open>while (g_running)\<close> loop with the file already mapped, at process
  time \<open>now_us\<close>. \<open>seq1\<close>, \<open>src_copy\<close> and \<open>seq2\<close> are what the three reads of
  \<open>thumbgrid_ipc_read\<close> return; \<open>m\<close> is the mapped record when the stale check runs.
  The result is the reader's state and the mapped record after the iteration.
\<close>

definition poll_iteration ::
  "u32 \<Rightarrow> ThumbGridSharedState \<Rightarrow> u32 \<Rightarrow> u64 \<Rightarrow> poll_state \<Rightarrow> ThumbGridSharedState
     \<Rightarrow> poll_state \<times> ThumbGridSharedState" where
  "poll_iteration seq1 src_copy seq2 now_us p m =
     (let (ok, snap) = thumbgrid_ipc_read seq1 src_copy seq2 zero_shared_state;
          (p1, m1) =
            (if ok \<noteq> 0 then
               (let p_ok = p\<lparr>read_ok := read_ok p + 1\<rparr>;
                    p_seq = (if sequence snap \<noteq> last_seq p_ok
                             then p_ok\<lparr>last_seq := sequence snap, last_seq_change_us := now_us\<rparr>
                             else p_ok)
                in if ime_active snap \<noteq> 0 \<and> 0 < last_seq_change_us p_seq \<and>
                      IPC_STALE_TIMEOUT_US < now_us - last_seq_change_us p_seq
                   then (update_widgets (snap\<lparr>ime_active := 0\<rparr>)
                           (p_seq\<lparr>last_seq := 0, last_seq_change_us := 0\<rparr>),
                         m\<lparr>ime_active := 0, sequence := 0\<rparr>)
                   else (update_widgets snap p_seq, m))
             else (p\<lparr>read_fail := read_fail p + 1\<rparr>, m))
      in (p1\<lparr>poll_count := poll_count p1 + 1\<rparr>, m1))"

text \<open>
  The same iteration when no writer runs during it: the three reads see the mapped record
  as it is.
\<close>

definition poll_quiet :: "u64 \<Rightarrow> poll_state \<times> ThumbGridSharedState \<Rightarrow> poll_state \<times> ThumbGridSharedState" where
  "poll_quiet now_us pm = poll_iteration (sequence (snd pm)) (snd pm) (sequence (snd pm)) now_us (fst pm) (snd pm)"

text \<open>Successive iterations, one per time stamp, with no writer running.\<close>

fun poll_run :: "u64 list \<Rightarrow> poll_state \<times> ThumbGridSharedState \<Rightarrow> poll_state \<times> ThumbGridSharedState" where
  "poll_run [] pm = pm"
| "poll_run (t # ts) pm = poll_run ts (poll_quiet t pm)"

section \<open>The editing session (ime_custom.h, ime_custom.c, plugin_common.h)\<close>

subsection \<open>Constants and data\<close>

definition IME_OK :: int where
  "IME_OK = 0"

definition IME_MAX_OUTPUT_LENGTH :: u32 where
  "IME_MAX_OUTPUT_LENGTH = 256"

definition IME_MAX_CHARSET_SIZE :: nat where
  "IME_MAX_CHARSET_SIZE = 96"

definition IME_DEFAULT_CHARSET :: string where
  "IME_DEFAULT_CHARSET =
     ''ABCDEFGHIJKLMNOPQRSTUVWXYZ'' @ ''abcdefghijklmnopqrstuvwxyz'' @ ''0123456789'' @
     '' .,!?'-:;@#$%&*()''"

definition IME_NUMERIC_CHARSET :: string where
  "IME_NUMERIC_CHARSET = ''0123456789.-+''"

definition IME_URL_CHARSET :: string where
  "IME_URL_CHARSET =
     ''abcdefghijklmnopqrstuvwxyz'' @ ''0123456789'' @ ''.-_~:/?#[]@!$&'()*+,;=%''"

definition ORBIS_IME_PANEL_TYPE_URL :: i32 where
  "ORBIS_IME_PANEL_TYPE_URL = 2"

definition ORBIS_IME_PANEL_TYPE_MAIL :: i32 where
  "ORBIS_IME_PANEL_TYPE_MAIL = 3"

definition ORBIS_IME_PANEL_TYPE_NUMBER :: i32 where
  "ORBIS_IME_PANEL_TYPE_NUMBER = 4"

record ImeCycleConfig =
  initial_delay_ms :: u32
  repeat_interval_ms :: u32
  accel_threshold_ms :: u32
  accel_interval_ms :: u32

datatype ImeCustomState =
  IME_STATE_INACTIVE | IME_STATE_ACTIVE | IME_STATE_CONFIRMING | IME_STATE_CANCELLED

text \<open>
  \<open>struct ImeSession\<close>. The two arrays are lists (of length 256 in every well-formed
  session); the two pointers are options, \<open>None\<close> for a null pointer: \<open>charset\<close> holds the
  characters of the string literal it points to (without the terminator),
  \<open>caller_buffer\<close> the caller's array.
\<close>

record ImeSession =
  state :: ImeCustomState
  charset :: "string option"
  charset_length :: u32
  cursor_index :: u32
  "output" :: "u16 list"
  output_length :: u32
  max_output_length :: u32
  text_cursor :: u32
  selected_all :: bool
  sel_start :: u32
  sel_end :: u32
  last_cycle_time_us :: u64
  hold_start_time_us :: u64
  dpad_held :: bool
  hold_direction :: i8
  cycle_config :: ImeCycleConfig
  caller_buffer :: "u16 list option"
  panel_type :: i32
  clipboard :: "u16 list"
  clipboard_length :: u32

subsection \<open>Helpers of plugin_common.h\<close>

definition CLAMP :: "u32 \<Rightarrow> u32 \<Rightarrow> u32 \<Rightarrow> u32" where
  "CLAMP val lo hi = (if val < lo then lo else if hi < val then hi else val)"

function safe_u16_strlen_loop :: "u16 list \<Rightarrow> u32 \<Rightarrow> u32 \<Rightarrow> fault + u32" where
  "safe_u16_strlen_loop str max_len len =
     (if len < max_len then
        bindF (load str len) (\<lambda>c.
          if c \<noteq> 0 then safe_u16_strlen_loop str max_len (len + 1) else Inr len)
      else Inr len)"
  by pat_completeness auto
termination
  by (relation "measure (\<lambda>(str, max_len, len). unat max_len - unat len)")
    (simp, simp add: word_less_nat_alt, unat_arith)

definition safe_u16_strlen :: "u16 list option \<Rightarrow> u32 \<Rightarrow> fault + u32" where
  "safe_u16_strlen str max_len =
     (case str of None \<Rightarrow> Inr 0 | Some a \<Rightarrow> safe_u16_strlen_loop a max_len 0)"

function safe_u16_copy_loop ::
  "u16 list \<Rightarrow> u16 list \<Rightarrow> u32 \<Rightarrow> u32 \<Rightarrow> fault + (u16 list \<times> u32)" where
  "safe_u16_copy_loop dst src i limit =
     (if i < limit then
        bindF (load src i) (\<lambda>c.
          if c \<noteq> 0 then bindF (store dst i c) (\<lambda>dst'. safe_u16_copy_loop dst' src (i + 1) limit)
          else Inr (dst, i))
      else Inr (dst, i))"
  by pat_completeness auto
termination
  by (relation "measure (\<lambda>(dst, src, i, limit). unat limit - unat i)")
    (simp, simp add: word_less_nat_alt, unat_arith)

text \<open>The result is the destination array after the call (\<open>None\<close> when \<open>dst\<close> is null).\<close>

definition safe_u16_copy ::
  "u16 list option \<Rightarrow> u16 list option \<Rightarrow> u32 \<Rightarrow> fault + u16 list option" where
  "safe_u16_copy dst src max_dst_chars =
     (case dst of
        None \<Rightarrow> Inr None
      | Some d \<Rightarrow>
          if max_dst_chars = 0 then Inr (Some d)
          else (case src of
                  None \<Rightarrow> bindF (store d 0 0) (\<lambda>d'. Inr (Some d'))
                | Some a \<Rightarrow>
                    bindF (safe_u16_copy_loop d a 0 (max_dst_chars - 1)) (\<lambda>(d', i).
                    bindF (store d' i 0) (\<lambda>d''. Inr (Some d'')))))"

subsection \<open>Charset selection and index wrapping\<close>

text \<open>
  The loop of \<open>charset_for_panel\<close> counts the characters before the terminator, at most
  \<open>IME_MAX_CHARSET_SIZE\<close> of them.
\<close>

function charset_length_loop :: "string \<Rightarrow> nat \<Rightarrow> nat" where
  "charset_length_loop cs len =
     (if len < length cs \<and> len < IME_MAX_CHARSET_SIZE then charset_length_loop cs (len + 1)
      else len)"
  by pat_completeness auto
termination
  by (relation "measure (\<lambda>(cs, len). length cs - len)") auto

definition charset_for_panel :: "i32 \<Rightarrow> string \<times> u32" where
  "charset_for_panel ptype =
     (let cs = (if ptype = ORBIS_IME_PANEL_TYPE_NUMBER then IME_NUMERIC_CHARSET
                else if ptype = ORBIS_IME_PANEL_TYPE_URL \<or> ptype = ORBIS_IME_PANEL_TYPE_MAIL
                then IME_URL_CHARSET
                else IME_DEFAULT_CHARSET)
      in (cs, of_nat (charset_length_loop cs 0)))"

text \<open>
  \<open>wrap_index\<close> works on \<open>int64_t\<close>. Its argument is a \<open>uint32_t\<close> plus an
  \<open>int8_t\<close>, so nothing overflows and the model computes on \<open>int\<close>; C's \<open>%\<close> truncates
  towards zero, which is \<open>smod\<close>.
\<close>

definition wrap_index :: "int \<Rightarrow> u32 \<Rightarrow> u32" where
  "wrap_index index len =
     (if len = 0 then 0
      else (let wrapped = index smod (uint len);
                wrapped' = (if wrapped < 0 then wrapped + uint len else wrapped)
            in word_of_int wrapped'))"

subsection \<open>Session lifecycle\<close>

text \<open>
  Every function takes the session behind its (non-null) pointer as its last argument and
  returns the session afterwards, with the C return value when there is one. The branch
  for a null session pointer changes nothing and has no session to return.
\<close>

text \<open>
  \<open>memset(session, 0, sizeof(ImeSession))\<close>, field by field; both arrays have
  \<open>IME_MAX_OUTPUT_LENGTH = 256\<close> elements.
\<close>

definition memset_zero :: "ImeSession \<Rightarrow> ImeSession" where
  "memset_zero session =
     session\<lparr>state := IME_STATE_INACTIVE, charset := None, charset_length := 0,
       cursor_index := 0, output := replicate 256 0, output_length := 0,
       max_output_length := 0, text_cursor := 0, selected_all := False, sel_start := 0,
       sel_end := 0, last_cycle_time_us := 0, hold_start_time_us := 0, dpad_held := False,
       hold_direction := 0,
       cycle_config := \<lparr>initial_delay_ms = 0, repeat_interval_ms = 0,
                         accel_threshold_ms = 0, accel_interval_ms = 0\<rparr>,
       caller_buffer := None, panel_type := 0,
       clipboard := replicate 256 0, clipboard_length := 0\<rparr>"

definition ime_session_init ::
  "i32 \<Rightarrow> u32 \<Rightarrow> u16 list option \<Rightarrow> u16 list option \<Rightarrow> ImeSession \<Rightarrow> fault + (int \<times> ImeSession)" where
  "ime_session_init ptype max_length0 cbuf prefill session =
     (let max_length =
            (if max_length0 = 0 \<or> IME_MAX_OUTPUT_LENGTH < max_length0
             then CLAMP max_length0 1 IME_MAX_OUTPUT_LENGTH else max_length0);
          (cs, cl) = charset_for_panel ptype;
          s1 = (memset_zero session)
                 \<lparr>state := IME_STATE_ACTIVE, panel_type := ptype, caller_buffer := cbuf,
                  max_output_length := max_length, charset := Some cs, charset_length := cl,
                  cursor_index := 0,
                  cycle_config := \<lparr>initial_delay_ms = 400, repeat_interval_ms = 150,
                                    accel_threshold_ms = 1500, accel_interval_ms = 50\<rparr>\<rparr>
      in case prefill of
           None \<Rightarrow> Inr (IME_OK, s1)
         | Some pf \<Rightarrow>
             bindF (safe_u16_strlen prefill max_length) (\<lambda>prefill_len.
             bindF (safe_u16_copy (Some (output s1)) prefill max_length) (\<lambda>out.
               Inr (IME_OK,
                    s1\<lparr>output := (case out of Some a \<Rightarrow> a | None \<Rightarrow> output s1),
                       output_length := prefill_len, text_cursor := prefill_len\<rparr>))))"

subsection \<open>Cycling\<close>

definition ime_session_cycle :: "i8 \<Rightarrow> ImeSession \<Rightarrow> ImeSession" where
  "ime_session_cycle delta session =
     (if state session \<noteq> IME_STATE_ACTIVE then session
      else if charset_length session = 0 then session
      else (let new_idx = uint (cursor_index session) + sint delta
            in session\<lparr>cursor_index := wrap_index new_idx (charset_length session)\<rparr>))"

text \<open>\<open>(uint16_t)c\<close> for a (signed) \<open>char\<close>: values from 128 on are sign-extended.\<close>

definition char_to_u16 :: "char \<Rightarrow> u16" where
  "char_to_u16 c = (let n = (of_char c :: nat) in if n < 128 then of_nat n else of_nat (n + 65280))"

definition load_charset :: "string option \<Rightarrow> u32 \<Rightarrow> fault + char" where
  "load_charset cs i = (case cs of None \<Rightarrow> Inl NullPointer | Some a \<Rightarrow> load a i)"

definition ime_session_confirm_char :: "ImeSession \<Rightarrow> fault + (bool \<times> ImeSession)" where
  "ime_session_confirm_char session =
     (if state session \<noteq> IME_STATE_ACTIVE then Inr (False, session)
      else if max_output_length session \<le> output_length session then Inr (False, session)
      else if charset_length session \<le> cursor_index session then Inr (False, session)
      else
        bindF (load_charset (charset session) (cursor_index session)) (\<lambda>c.
        bindF (store (output session) (output_length session) (char_to_u16 c)) (\<lambda>a1.
        let len' = output_length session + 1 in
        bindF (store a1 len' 0) (\<lambda>a2.
          Inr (True, session\<lparr>output := a2, output_length := len', cursor_index := 0\<rparr>)))))"

subsection \<open>Selection\<close>

function delete_shift_loop :: "u16 list \<Rightarrow> u32 \<Rightarrow> u32 \<Rightarrow> u32 \<Rightarrow> fault + u16 list" where
  "delete_shift_loop a i del_len len =
     (if i + del_len < len then
        bindF (load a (i + del_len)) (\<lambda>v.
        bindF (store a i v) (\<lambda>a'. delete_shift_loop a' (i + 1) del_len len))
      else Inr a)"
  by pat_completeness auto
termination
proof (relation "measure (\<lambda>(a, i, del_len, len). unat (len - (i + del_len)))")
  fix a a' :: "u16 list" and i del_len len :: u32
  assume "i + del_len < len"
  define k where "k = i + del_len"
  have "k < len" using \<open>i + del_len < len\<close> by (simp add: k_def)
  then have h: "unat (len - (k + 1)) < unat (len - k)" by unat_arith
  have e: "i + 1 + del_len = k + 1" by (simp add: k_def)
  show "((a', i + 1, del_len, len), (a, i, del_len, len))
      \<in> measure (\<lambda>(a, i, del_len, len). unat (len - (i + del_len)))"
    using h by (simp add: e) (simp add: k_def)
qed simp

definition ime_session_set_selection :: "u32 \<Rightarrow> u32 \<Rightarrow> ImeSession \<Rightarrow> ImeSession" where
  "ime_session_set_selection start0 end0 session =
     (if state session \<noteq> IME_STATE_ACTIVE then session
      else (let start1 = (if output_length session < start0 then output_length session else start0);
                end1 = (if output_length session < end0 then output_length session else end0);
                (start2, end2) = (if end1 < start1 then (end1, start1) else (start1, end1))
            in session\<lparr>sel_start := start2, sel_end := end2, selected_all := False\<rparr>))"

definition ime_session_clear_selection :: "ImeSession \<Rightarrow> ImeSession" where
  "ime_session_clear_selection session =
     session\<lparr>sel_start := 0, sel_end := 0, selected_all := False\<rparr>"

definition ime_session_delete_selection :: "ImeSession \<Rightarrow> fault + ImeSession" where
  "ime_session_delete_selection session =
     (if state session \<noteq> IME_STATE_ACTIVE then Inr session
      else if sel_start session = sel_end session then Inr session
      else (let (s, e0) = (if sel_end session < sel_start session
                           then (sel_end session, sel_start session)
                           else (sel_start session, sel_end session));
                e = (if output_length session < e0 then output_length session else e0)
            in if output_length session < s then Inr session
               else (let del_len = e - s in
                 bindF (delete_shift_loop (output session) s del_len (output_length session)) (\<lambda>a1.
                 let len' = output_length session - del_len in
                 bindF (store a1 len' 0) (\<lambda>a2.
                   Inr (session\<lparr>output := a2, output_length := len', text_cursor := s,
                                sel_start := 0, sel_end := 0, selected_all := False\<rparr>))))))"

definition ime_session_select_all :: "ImeSession \<Rightarrow> ImeSession" where
  "ime_session_select_all session =
     (if state session \<noteq> IME_STATE_ACTIVE then session
      else if output_length session = 0 then session
      else session\<lparr>selected_all := True, sel_start := 0, sel_end := output_length session,
                   text_cursor := output_length session\<rparr>)"

subsection \<open>Direct entry\<close>

text \<open>
  The five assignments that empty the buffer when everything is selected; the source
  repeats them in \<open>clear_if_selected\<close>, \<open>ime_session_backspace\<close>, \<open>ime_session_cut\<close>
  and \<open>ime_session_paste\<close>.
\<close>

definition clear_all_selected :: "ImeSession \<Rightarrow> fault + ImeSession" where
  "clear_all_selected session =
     bindF (store (output session) 0 0) (\<lambda>a.
       Inr (session\<lparr>output_length := 0, text_cursor := 0, output := a, selected_all := False,
                    sel_start := 0, sel_end := 0\<rparr>))"

definition clear_if_selected :: "ImeSession \<Rightarrow> fault + ImeSession" where
  "clear_if_selected session =
     (if selected_all session then clear_all_selected session
      else if sel_start session \<noteq> sel_end session then ime_session_delete_selection session
      else Inr session)"

function insert_shift_loop :: "u16 list \<Rightarrow> u32 \<Rightarrow> u32 \<Rightarrow> fault + u16 list" where
  "insert_shift_loop a i pos =
     (if pos < i then
        bindF (load a (i - 1)) (\<lambda>v.
        bindF (store a i v) (\<lambda>a'. insert_shift_loop a' (i - 1) pos))
      else Inr a)"
  by pat_completeness auto
termination
proof (relation "measure (\<lambda>(a, i, pos). unat i)")
  fix a a' :: "u16 list" and i pos :: u32
  assume "pos < i"
  then have "unat (i - 1) < unat i" by unat_arith
  then show "((a', i - 1, pos), (a, i, pos)) \<in> measure (\<lambda>(a, i, pos). unat i)"
    by simp
qed simp

definition ime_session_add_char16 :: "u16 \<Rightarrow> ImeSession \<Rightarrow> fault + (bool \<times> ImeSession)" where
  "ime_session_add_char16 c session =
     (if state session \<noteq> IME_STATE_ACTIVE then Inr (False, session)
      else
        bindF (clear_if_selected session) (\<lambda>s1.
        if max_output_length s1 \<le> output_length s1 then Inr (False, s1)
        else (let pos = (if output_length s1 < text_cursor s1 then output_length s1
                         else text_cursor s1) in
          bindF (insert_shift_loop (output s1) (output_length s1) pos) (\<lambda>a1.
          bindF (store a1 pos c) (\<lambda>a2.
          let len' = output_length s1 + 1 in
          bindF (store a2 len' 0) (\<lambda>a3.
            Inr (True, s1\<lparr>output := a3, output_length := len', text_cursor := pos + 1\<rparr>)))))))"

definition ime_session_add_char :: "char \<Rightarrow> ImeSession \<Rightarrow> fault + (bool \<times> ImeSession)" where
  "ime_session_add_char c session = ime_session_add_char16 (char_to_u16 c) session"

function backspace_shift_loop :: "u16 list \<Rightarrow> u32 \<Rightarrow> u32 \<Rightarrow> fault + u16 list" where
  "backspace_shift_loop a i len =
     (if i < len - 1 then
        bindF (load a (i + 1)) (\<lambda>v.
        bindF (store a i v) (\<lambda>a'. backspace_shift_loop a' (i + 1) len))
      else Inr a)"
  by pat_completeness auto
termination
proof (relation "measure (\<lambda>(a, i, len). unat (len - 1) - unat i)")
  fix a a' :: "u16 list" and i len :: u32
  assume "i < len - 1"
  define m where "m = len - 1"
  have "i < m" using \<open>i < len - 1\<close> by (simp add: m_def)
  then have "unat m - unat (i + 1) < unat m - unat i" by unat_arith
  then show "((a', i + 1, len), (a, i, len)) \<in> measure (\<lambda>(a, i, len). unat (len - 1) - unat i)"
    by (simp add: m_def)
qed simp

definition ime_session_backspace :: "ImeSession \<Rightarrow> fault + (bool \<times> ImeSession)" where
  "ime_session_backspace session =
     (if state session \<noteq> IME_STATE_ACTIVE then Inr (False, session)
      else if selected_all session then
        bindF (clear_all_selected session) (\<lambda>s1. Inr (True, s1))
      else if sel_start session \<noteq> sel_end session then
        bindF (ime_session_delete_selection session) (\<lambda>s1. Inr (True, s1))
      else if text_cursor session = 0 \<or> output_length session = 0 then Inr (False, session)
      else (let pos = text_cursor session - 1 in
        bindF (backspace_shift_loop (output session) pos (output_length session)) (\<lambda>a1.
        let len' = output_length session - 1 in
        bindF (store a1 len' 0) (\<lambda>a2.
          Inr (True, session\<lparr>output := a2, output_length := len', text_cursor := pos\<rparr>)))))"

subsection \<open>Cursor movement\<close>

definition ime_session_cursor_left :: "ImeSession \<Rightarrow> ImeSession" where
  "ime_session_cursor_left session =
     (if state session \<noteq> IME_STATE_ACTIVE then session
      else (let s1 = session\<lparr>selected_all := False\<rparr>
            in if 0 < text_cursor s1 then s1\<lparr>text_cursor := text_cursor s1 - 1\<rparr> else s1))"

definition ime_session_cursor_right :: "ImeSession \<Rightarrow> ImeSession" where
  "ime_session_cursor_right session =
     (if state session \<noteq> IME_STATE_ACTIVE then session
      else (let s1 = session\<lparr>selected_all := False\<rparr>
            in if text_cursor s1 < output_length s1 then s1\<lparr>text_cursor := text_cursor s1 + 1\<rparr>
               else s1))"

definition ime_session_cursor_home :: "ImeSession \<Rightarrow> ImeSession" where
  "ime_session_cursor_home session =
     (if state session \<noteq> IME_STATE_ACTIVE then session
      else session\<lparr>selected_all := False, text_cursor := 0\<rparr>)"

definition ime_session_cursor_end :: "ImeSession \<Rightarrow> ImeSession" where
  "ime_session_cursor_end session =
     (if state session \<noteq> IME_STATE_ACTIVE then session
      else session\<lparr>selected_all := False, text_cursor := output_length session\<rparr>)"

subsection \<open>Submit and cancel\<close>

definition ime_session_submit :: "ImeSession \<Rightarrow> fault + ImeSession" where
  "ime_session_submit session =
     (if state session \<noteq> IME_STATE_ACTIVE then Inr session
      else
        bindF (case caller_buffer session of
                 None \<Rightarrow> Inr None
               | Some cb \<Rightarrow> safe_u16_copy (Some cb) (Some (output session))
                              (max_output_length session)) (\<lambda>cb'.
          Inr (session\<lparr>caller_buffer := cb', state := IME_STATE_CONFIRMING\<rparr>)))"

definition ime_session_cancel :: "ImeSession \<Rightarrow> ImeSession" where
  "ime_session_cancel session = session\<lparr>state := IME_STATE_CANCELLED\<rparr>"

subsection \<open>Clipboard\<close>

definition ime_session_copy :: "ImeSession \<Rightarrow> fault + ImeSession" where
  "ime_session_copy session =
     (if state session \<noteq> IME_STATE_ACTIVE then Inr session
      else if \<not> selected_all session \<and> sel_start session = sel_end session then Inr session
      else (let (s, e) =
                  (if selected_all session then (0, output_length session)
                   else if sel_end session < sel_start session
                   then (sel_end session, sel_start session)
                   else (sel_start session, sel_end session));
                len = (if IME_MAX_OUTPUT_LENGTH < e - s then IME_MAX_OUTPUT_LENGTH else e - s)
            in bindF (memcpy_u16 (clipboard session) 0 (output session) (unat s) (unat len)) (\<lambda>cb.
                 Inr (session\<lparr>clipboard := cb, clipboard_length := len\<rparr>))))"

definition ime_session_cut :: "ImeSession \<Rightarrow> fault + ImeSession" where
  "ime_session_cut session =
     (if state session \<noteq> IME_STATE_ACTIVE then Inr session
      else
        bindF (ime_session_copy session) (\<lambda>s1.
          if 0 < clipboard_length s1 then
            (if selected_all s1 then clear_all_selected s1 else ime_session_delete_selection s1)
          else Inr s1))"

function paste_shift_loop :: "u16 list \<Rightarrow> u32 \<Rightarrow> u32 \<Rightarrow> u32 \<Rightarrow> fault + u16 list" where
  "paste_shift_loop a i pos paste_len =
     (if pos < i then
        bindF (load a (i - 1)) (\<lambda>v.
        bindF (store a (i + paste_len - 1) v) (\<lambda>a'. paste_shift_loop a' (i - 1) pos paste_len))
      else Inr a)"
  by pat_completeness auto
termination
proof (relation "measure (\<lambda>(a, i, pos, paste_len). unat i)")
  fix a a' :: "u16 list" and i pos paste_len :: u32
  assume "pos < i"
  then have "unat (i - 1) < unat i" by unat_arith
  then show "((a', i - 1, pos, paste_len), (a, i, pos, paste_len))
      \<in> measure (\<lambda>(a, i, pos, paste_len). unat i)"
    by simp
qed simp

definition ime_session_paste :: "ImeSession \<Rightarrow> fault + ImeSession" where
  "ime_session_paste session =
     (if state session \<noteq> IME_STATE_ACTIVE then Inr session
      else if clipboard_length session = 0 then Inr session
      else
        bindF (if selected_all session then clear_all_selected session
               else if sel_start session \<noteq> sel_end session
               then ime_session_delete_selection session
               else Inr session) (\<lambda>s1.
        let avail = max_output_length s1 - output_length s1;
            paste_len = (if avail < clipboard_length s1 then avail else clipboard_length s1)
        in if paste_len = 0 then Inr s1
           else (let pos = (if output_length s1 < text_cursor s1 then output_length s1
                            else text_cursor s1) in
             bindF (paste_shift_loop (output s1) (output_length s1) pos paste_len) (\<lambda>a1.
             bindF (memcpy_u16 a1 (unat pos) (clipboard s1) 0 (unat paste_len)) (\<lambda>a2.
             let len' = output_length s1 + paste_len in
             bindF (store a2 len' 0) (\<lambda>a3.
               Inr (s1\<lparr>output := a3, output_length := len',
                       text_cursor := pos + paste_len\<rparr>)))))))"

subsection \<open>Timing\<close>

definition ime_session_update_timing :: "u64 \<Rightarrow> ImeSession \<Rightarrow> ImeSession" where
  "ime_session_update_timing current_us session =
     (if state session \<noteq> IME_STATE_ACTIVE then session
      else if \<not> dpad_held session \<or> hold_direction session = 0 then session
      else (let held_ms = (current_us - hold_start_time_us session) div 1000;
                since_ms = (current_us - last_cycle_time_us session) div 1000;
                cfg = cycle_config session;
                interval = (if ucast (accel_threshold_ms cfg) < held_ms
                            then accel_interval_ms cfg else repeat_interval_ms cfg)
            in if held_ms < ucast (initial_delay_ms cfg) then session
               else if since_ms < ucast interval then session
               else (ime_session_cycle (hold_direction session) session)
                      \<lparr>last_cycle_time_us := current_us\<rparr>))"

section \<open>Call sequences\<close>

text \<open>
  The static \<open>g_session\<close> of ime_hook.c before the first session: static storage is
  zero-initialised.
\<close>

definition g_session_zero :: ImeSession where
  "g_session_zero =
     \<lparr>state = IME_STATE_INACTIVE, charset = None, charset_length = 0, cursor_index = 0,
      output = replicate 256 0, output_length = 0, max_output_length = 0, text_cursor = 0,
      selected_all = False, sel_start = 0, sel_end = 0, last_cycle_time_us = 0,
      hold_start_time_us = 0, dpad_held = False, hold_direction = 0,
      cycle_config = \<lparr>initial_delay_ms = 0, repeat_interval_ms = 0,
                        accel_threshold_ms = 0, accel_interval_ms = 0\<rparr>,
      caller_buffer = None, panel_type = 0, clipboard = replicate 256 0,
      clipboard_length = 0\<rparr>"

text \<open>The calls a client can make on a session, and a sequence of them run in order.\<close>

datatype ime_call =
  AddChar16 u16 | Backspace | DeleteSelection
  | CursorLeft | CursorRight | CursorHome | CursorEnd
  | SetSelection u32 u32 | ClearSelection | SelectAll
  | Copy | Cut | Paste | Cycle i8 | ConfirmChar | UpdateTiming u64 | Submit | Cancel

definition drop_result :: "fault + ('r \<times> ImeSession) \<Rightarrow> fault + ImeSession" where
  "drop_result m = bindF m (\<lambda>(r, s). Inr s)"

fun ime_call_apply :: "ime_call \<Rightarrow> ImeSession \<Rightarrow> fault + ImeSession" where
  "ime_call_apply (AddChar16 c) s = drop_result (ime_session_add_char16 c s)"
| "ime_call_apply Backspace s = drop_result (ime_session_backspace s)"
| "ime_call_apply DeleteSelection s = ime_session_delete_selection s"
| "ime_call_apply CursorLeft s = Inr (ime_session_cursor_left s)"
| "ime_call_apply CursorRight s = Inr (ime_session_cursor_right s)"
| "ime_call_apply CursorHome s = Inr (ime_session_cursor_home s)"
| "ime_call_apply CursorEnd s = Inr (ime_session_cursor_end s)"
| "ime_call_apply (SetSelection a b) s = Inr (ime_session_set_selection a b s)"
| "ime_call_apply ClearSelection s = Inr (ime_session_clear_selection s)"
| "ime_call_apply SelectAll s = Inr (ime_session_select_all s)"
| "ime_call_apply Copy s = ime_session_copy s"
| "ime_call_apply Cut s = ime_session_cut s"
| "ime_call_apply Paste s = ime_session_paste s"
| "ime_call_apply (Cycle d) s = Inr (ime_session_cycle d s)"
| "ime_call_apply ConfirmChar s = drop_result (ime_session_confirm_char s)"
| "ime_call_apply (UpdateTiming t) s = Inr (ime_session_update_timing t s)"
| "ime_call_apply Submit s = ime_session_submit s"
| "ime_call_apply Cancel s = Inr (ime_session_cancel s)"

fun ime_calls :: "ime_call list \<Rightarrow> ImeSession \<Rightarrow> fault + ImeSession" where
  "ime_calls [] s = Inr s"
| "ime_calls (c # cs) s = bindF (ime_call_apply c s) (ime_calls cs)"

text \<open>
  A session opened on \<open>g_session\<close> as \<open>hooked_ime_dialog_init\<close> opens it, followed by a
  sequence of calls.
\<close>

definition session_after ::
  "i32 \<Rightarrow> u32 \<Rightarrow> u16 list option \<Rightarrow> u16 list option \<Rightarrow> ime_call list \<Rightarrow> fault + ImeSession" where
  "session_after ptype max_length cbuf prefill cs =
     bindF (drop_result (ime_session_init ptype max_length cbuf prefill g_session_zero))
       (ime_calls cs)"

section \<open>Sample states\<close>

text \<open>The locals of \<open>poll_thread\<close> when its loop starts, with the grid hidden.\<close>

definition poll_start :: poll_state where
  "poll_start =
     \<lparr>poll_count = 0, read_ok = 0, read_fail = 0, last_seq = 0, last_seq_change_us = 0,
      g_cached_state = zero_shared_state, grid_visible = False\<rparr>"

text \<open>
  A session object as a finished session can leave it: confirmed, with text, a selection,
  a moved cycle cursor and a filled clipboard.
\<close>

definition stale_session :: ImeSession where
  "stale_session =
     \<lparr>state = IME_STATE_CONFIRMING, charset = Some IME_URL_CHARSET, charset_length = 59,
      cursor_index = 7, output = [104, 105] @ replicate 254 0, output_length = 2,
      max_output_length = 16, text_cursor = 1, selected_all = True, sel_start = 0, sel_end = 2,
      last_cycle_time_us = 900, hold_start_time_us = 800, dpad_held = True, hold_direction = 1,
      cycle_config = \<lparr>initial_delay_ms = 400, repeat_interval_ms = 150,
                        accel_threshold_ms = 1500, accel_interval_ms = 50\<rparr>,
      caller_buffer = Some (replicate 17 0), panel_type = 2,
      clipboard = [115, 101, 99, 114, 101, 116] @ replicate 250 0, clipboard_length = 6\<rparr>"

text \<open>
  Two sessions reached through calls: the text "abc" with the cursor before the last
  character and the range 1..3 selected, and a numeric session whose cycle cursor stands
  at index 3 of its 13 characters.
\<close>

definition abc_selected :: ImeSession where
  "abc_selected = projr (session_after 0 10 None None
      [AddChar16 97, AddChar16 98, AddChar16 99, CursorLeft, SetSelection 1 3])"

definition numeric_session :: ImeSession where
  "numeric_session = projr (session_after 4 20 None None [Cycle 1, Cycle 1, Cycle 1])"

text \<open>A mapped record left active with its counter at 42.\<close>

definition frozen_42 :: ThumbGridSharedState where
  "frozen_42 = zero_shared_state\<lparr>sequence := 42, ime_active := 1\<rparr>"

text \<open>
  The session that \<open>ime_session_init\<close> makes of a prefill of \<open>n\<close> characters \<open>A\<close>
  (\<open>n\<close> from 255 on) with the maximal length 256: \<open>safe_u16_copy\<close> keeps 255 characters.
\<close>

definition prefilled :: "nat \<Rightarrow> ImeSession" where
  "prefilled n =
     g_session_zero\<lparr>state := IME_STATE_ACTIVE, charset := Some IME_DEFAULT_CHARSET,
       charset_length := 79, output := replicate (min n 255) 65 @ replicate (256 - min n 255) 0,
       output_length := of_nat n, max_output_length := 256, text_cursor := of_nat n,
       cycle_config := \<lparr>initial_delay_ms = 400, repeat_interval_ms = 150,
                         accel_threshold_ms = 1500, accel_interval_ms = 50\<rparr>\<rparr>"

section \<open>Predicates and closed forms for the proofs\<close>

text \<open>
  Two situations of the poll loop: the reader has seen counter \<open>q\<close> at time \<open>t0\<close> and
  shows the record \<open>m0\<close> as active; the reader has hidden the grid and reset the mapped
  record.
\<close>

definition tracking ::
  "u32 \<Rightarrow> u64 \<Rightarrow> ThumbGridSharedState \<Rightarrow> poll_state \<times> ThumbGridSharedState \<Rightarrow> bool" where
  "tracking q t0 m0 pm \<longleftrightarrow>
     snd pm = m0 \<and> last_seq (fst pm) = q \<and> last_seq_change_us (fst pm) = t0 \<and>
     ime_active (g_cached_state (fst pm)) \<noteq> 0"

definition healed :: "poll_state \<times> ThumbGridSharedState \<Rightarrow> bool" where
  "healed pm \<longleftrightarrow>
     sequence (snd pm) = 0 \<and> ime_active (snd pm) = 0 \<and> last_seq (fst pm) = 0 \<and>
     ime_active (g_cached_state (fst pm)) = 0 \<and> \<not> grid_visible (fst pm)"

text \<open>
  What the shifting loops of the session compute, as one expression: \<open>moved_left\<close> for
  the loops of backspace and delete (the elements from \<open>i + d\<close> up to \<open>len\<close> move down
  by \<open>d\<close>), \<open>moved_right\<close> for the loops of insert and paste (the elements from \<open>pos\<close>
  up to \<open>len\<close> move up by \<open>k\<close>).
\<close>

definition moved_left :: "u16 list \<Rightarrow> nat \<Rightarrow> nat \<Rightarrow> nat \<Rightarrow> u16 list" where
  "moved_left a i d len = map (\<lambda>j. if i \<le> j \<and> j + d < len then a ! (j + d) else a ! j) [0..<length a]"

definition moved_right :: "u16 list \<Rightarrow> nat \<Rightarrow> nat \<Rightarrow> nat \<Rightarrow> u16 list" where
  "moved_right a pos k len = map (\<lambda>j. if pos + k \<le> j \<and> j < len + k then a ! (j - k) else a ! j) [0..<length a]"

text \<open>
  A session is well formed when its arrays have their declared size, the maximal length
  is at most \<open>IME_MAX_OUTPUT_LENGTH\<close>, the charset has at least \<open>charset_length\<close>
  characters and the caller's array at least \<open>max_output_length\<close> elements. The
  invariant of the text fields is \<open>session_inv\<close>: cursor within the text, text within
  the maximal length, selection range ordered, and a non-empty range within the text.
\<close>

definition charset_ok :: "string option \<Rightarrow> u32 \<Rightarrow> bool" where
  "charset_ok cs n \<longleftrightarrow> (case cs of None \<Rightarrow> n = 0 | Some a \<Rightarrow> unat n \<le> length a)"

definition caller_buffer_ok :: "u16 list option \<Rightarrow> u32 \<Rightarrow> bool" where
  "caller_buffer_ok cb n \<longleftrightarrow> (case cb of None \<Rightarrow> True | Some b \<Rightarrow> unat n \<le> length b)"

definition session_wf :: "ImeSession \<Rightarrow> bool" where
  "session_wf s \<longleftrightarrow>
     length (output s) = 256 \<and> length (clipboard s) = 256 \<and>
     max_output_length s \<le> IME_MAX_OUTPUT_LENGTH \<and>
     charset_ok (charset s) (charset_length s) \<and>
     caller_buffer_ok (caller_buffer s) (max_output_length s)"

definition session_inv :: "ImeSession \<Rightarrow> bool" where
  "session_inv s \<longleftrightarrow>
     text_cursor s \<le> output_length s \<and> output_length s \<le> max_output_length s \<and>
     sel_start s \<le> sel_end s \<and> (sel_start s \<noteq> sel_end s \<longrightarrow> sel_end s \<le> output_length s)"

text \<open>Both together.\<close>

definition session_ok :: "ImeSession \<Rightarrow> bool" where
  "session_ok s \<longleftrightarrow> session_wf s \<and> session_inv s"

text \<open>
  What a call may do to such a session: return one again, with the same maximal length,
  or store at index 256 when the maximal length is 256.
\<close>

definition keeps_ok :: "ImeSession \<Rightarrow> fault + ImeSession \<Rightarrow> bool" where
  "keeps_ok s r \<longleftrightarrow>
     (case r of
        Inr s' \<Rightarrow> session_ok s' \<and> max_output_length s' = max_output_length s
      | Inl f \<Rightarrow> f = StoreOutOfBounds 256 \<and> max_output_length s = 256)"

section \<open>The reader accepts only consistent snapshots\<close>

lemma and_1_odd: "(w :: u32) AND 1 \<noteq> 0 \<longleftrightarrow> odd w"
  by (simp add: and_one_eq odd_iff_mod_2_eq_one)

text \<open>
  Claim C6. \<open>thumbgrid_ipc_read\<close> returns 1 exactly when the counter read before the copy
  is even and equals the counter read after it, and then the destination holds the copy.
  It returns 0 exactly when the first counter is odd or the two differ; the poll loop then
  only counts a failed read: the rejected copy (which the destination holds when the two
  counters differ) reaches neither the cached record, nor the stale detection, nor the
  mapped record.
\<close>

theorem thumbgrid_ipc_read_valid:
  "(fst (thumbgrid_ipc_read seq1 c seq2 dst) = 1 \<longleftrightarrow> even seq1 \<and> seq1 = seq2) \<and>
   (fst (thumbgrid_ipc_read seq1 c seq2 dst) = 0 \<longleftrightarrow> odd seq1 \<or> seq1 \<noteq> seq2) \<and>
   (fst (thumbgrid_ipc_read seq1 c seq2 dst) = 1 \<longrightarrow>
      snd (thumbgrid_ipc_read seq1 c seq2 dst) = c) \<and>
   (fst (thumbgrid_ipc_read seq1 c seq2 dst) = 0 \<longrightarrow>
      poll_iteration seq1 c seq2 now p m =
        (p\<lparr>read_fail := read_fail p + 1, poll_count := poll_count p + 1\<rparr>, m))"
  by (auto simp add: thumbgrid_ipc_read_def poll_iteration_def and_1_odd)

text \<open>
  A torn read (counter 42 before, 44 after, the copy taken in between) is rejected and
  leaves the reader as it was; a consistent read at counter 42 is accepted.
\<close>

theorem thumbgrid_ipc_read_valid_witness:
  "fst (thumbgrid_ipc_read 42 (zero_shared_state\<lparr>sequence := 43, ime_active := 1\<rparr>) 44
          zero_shared_state) = 0 \<and>
   poll_iteration 42 (zero_shared_state\<lparr>sequence := 43, ime_active := 1\<rparr>) 44 5000000 poll_start
       (zero_shared_state\<lparr>sequence := 44, ime_active := 1\<rparr>) =
     (poll_start\<lparr>read_fail := 1, poll_count := 1\<rparr>,
      zero_shared_state\<lparr>sequence := 44, ime_active := 1\<rparr>) \<and>
   fst (thumbgrid_ipc_read 42 (zero_shared_state\<lparr>sequence := 42, ime_active := 1\<rparr>) 42
          zero_shared_state) = 1 \<and>
   snd (thumbgrid_ipc_read 42 (zero_shared_state\<lparr>sequence := 42, ime_active := 1\<rparr>) 42
          zero_shared_state) = zero_shared_state\<lparr>sequence := 42, ime_active := 1\<rparr>"
  using thumbgrid_ipc_read_valid [of 42 "zero_shared_state\<lparr>sequence := 43, ime_active := 1\<rparr>" 44
      zero_shared_state 5000000 poll_start "zero_shared_state\<lparr>sequence := 44, ime_active := 1\<rparr>"]
    thumbgrid_ipc_read_valid [of 42 "zero_shared_state\<lparr>sequence := 42, ime_active := 1\<rparr>" 42
      zero_shared_state 0 poll_start zero_shared_state]
  by (simp add: poll_start_def)

section \<open>A new session starts from zeroes\<close>

lemma memset_zero_const: "memset_zero s = g_session_zero"
  by (simp add: memset_zero_def g_session_zero_def)

text \<open>
  Claim C9. \<open>ime_session_init\<close> zeroes the whole session object before it sets the new
  fields: its result does not depend on what the object held before, and the clipboard,
  its length, the selection and the cycle cursor of the new session are zero; without a
  prefill so are the text cursor and the text.
\<close>

theorem ime_session_init_zeroes:
  "ime_session_init ptype max_length cbuf prefill old =
     ime_session_init ptype max_length cbuf prefill g_session_zero \<and>
   (\<forall>r s. ime_session_init ptype max_length cbuf prefill old = Inr (r, s) \<longrightarrow>
      clipboard s = replicate 256 0 \<and> clipboard_length s = 0 \<and> sel_start s = 0 \<and>
      sel_end s = 0 \<and> \<not> selected_all s \<and> cursor_index s = 0 \<and>
      (prefill = None \<longrightarrow>
         text_cursor s = 0 \<and> output s = replicate 256 0 \<and> output_length s = 0))"
  by (auto simp add: ime_session_init_def memset_zero_const Let_def g_session_zero_def bindF_def
        split: prod.splits option.splits sum.splits)

theorem ime_session_init_zeroes_witness:
  "\<not> isl (ime_session_init 4 8 None None stale_session) \<and>
   clipboard (snd (projr (ime_session_init 4 8 None None stale_session))) = replicate 256 0 \<and>
   clipboard_length (snd (projr (ime_session_init 4 8 None None stale_session))) = 0 \<and>
   sel_end (snd (projr (ime_session_init 4 8 None None stale_session))) = 0 \<and>
   cursor_index (snd (projr (ime_session_init 4 8 None None stale_session))) = 0 \<and>
   text_cursor (snd (projr (ime_session_init 4 8 None None stale_session))) = 0"
proof -
  have r: "\<not> isl (ime_session_init 4 8 None None stale_session)"
    by (simp add: ime_session_init_def Let_def split: prod.splits)
  then have "ime_session_init 4 8 None None stale_session =
      Inr (fst (projr (ime_session_init 4 8 None None stale_session)),
           snd (projr (ime_session_init 4 8 None None stale_session)))"
    by (cases "ime_session_init 4 8 None None stale_session") simp_all
  with ime_session_init_zeroes [of 4 8 None None stale_session] r show ?thesis
    by blast
qed

section \<open>The state machine\<close>

text \<open>
  Every call but \<open>ime_session_cancel\<close> and \<open>ime_session_clear_selection\<close> tests the state
  first and leaves a session that is not active as it is.
\<close>

lemma guarded_call_inactive:
  "state s \<noteq> IME_STATE_ACTIVE \<Longrightarrow> c \<noteq> Cancel \<Longrightarrow> c \<noteq> ClearSelection \<Longrightarrow>
   ime_call_apply c s = Inr s"
  by (cases c)
    (simp_all add: drop_result_def bindF_def ime_session_add_char16_def ime_session_backspace_def
      ime_session_delete_selection_def ime_session_cursor_left_def ime_session_cursor_right_def
      ime_session_cursor_home_def ime_session_cursor_end_def ime_session_set_selection_def
      ime_session_select_all_def ime_session_copy_def ime_session_cut_def ime_session_paste_def
      ime_session_cycle_def ime_session_confirm_char_def ime_session_update_timing_def
      ime_session_submit_def)

text \<open>
  Claim C3, evaluated where it fails. After \<open>ime_session_submit\<close> the session is
  confirming; \<open>ime_session_cancel\<close>, which does not test the state, then makes it
  cancelled. \<open>ime_session_clear_selection\<close> does not test the state either and resets the
  selection range 1..3 of a confirmed session.
\<close>

theorem cancel_leaves_confirming:
  "\<not> isl (session_after 0 10 None None [Submit]) \<and>
   state (projr (session_after 0 10 None None [Submit])) = IME_STATE_CONFIRMING \<and>
   \<not> isl (session_after 0 10 None None [Submit, Cancel]) \<and>
   state (projr (session_after 0 10 None None [Submit, Cancel])) = IME_STATE_CANCELLED \<and>
   sel_end (projr (session_after 0 10 None None
      [AddChar16 97, AddChar16 98, AddChar16 99, SetSelection 1 3, Submit])) = 3 \<and>
   sel_end (projr (session_after 0 10 None None
      [AddChar16 97, AddChar16 98, AddChar16 99, SetSelection 1 3, Submit, ClearSelection])) = 0"
  by code_simp

section \<open>Cursor movement\<close>

text \<open>
  Claim C4 as stated fails: with the range 1..3 selected, each of the four cursor moves
  leaves \<open>sel_start = 1\<close> and \<open>sel_end = 3\<close>.
\<close>

theorem cursor_left_keeps_range:
  "state abc_selected = IME_STATE_ACTIVE \<and>
   sel_start abc_selected = 1 \<and> sel_end abc_selected = 3 \<and>
   sel_start (ime_session_cursor_left abc_selected) = 1 \<and>
   sel_end (ime_session_cursor_left abc_selected) = 3 \<and>
   sel_start (ime_session_cursor_right abc_selected) = 1 \<and>
   sel_end (ime_session_cursor_right abc_selected) = 3 \<and>
   sel_start (ime_session_cursor_home abc_selected) = 1 \<and>
   sel_end (ime_session_cursor_home abc_selected) = 3 \<and>
   sel_start (ime_session_cursor_end abc_selected) = 1 \<and>
   sel_end (ime_session_cursor_end abc_selected) = 3"
  by code_simp

lemma abc_selected_facts:
  "state abc_selected = IME_STATE_ACTIVE" "text_cursor abc_selected = 2"
  "output_length abc_selected = 3" "sel_start abc_selected = 1" "sel_end abc_selected = 3"
  by (code_simp, code_simp, code_simp, code_simp, code_simp)

text \<open>
  Claim C4, amended. In an active session whose cursor is within the text, each of the
  four cursor moves clears the select-all flag, moves the cursor by one position or to a
  boundary, clamped to \<open>[0, output_length]\<close>, and changes nothing else: \<open>sel_start\<close> and
  \<open>sel_end\<close> keep their values. The range is cleared by \<open>ime_session_clear_selection\<close>,
  which the input router calls before each move: after both, no selection is left.
\<close>

theorem cursor_moves_clear_select_all:
  assumes "state s = IME_STATE_ACTIVE" and "text_cursor s \<le> output_length s"
  shows
   "ime_session_cursor_left s =
      s\<lparr>selected_all := False, text_cursor := of_nat (unat (text_cursor s) - 1)\<rparr> \<and>
    ime_session_cursor_right s =
      s\<lparr>selected_all := False,
        text_cursor := of_nat (min (unat (text_cursor s) + 1) (unat (output_length s)))\<rparr> \<and>
    ime_session_cursor_home s = s\<lparr>selected_all := False, text_cursor := 0\<rparr> \<and>
    ime_session_cursor_end s = s\<lparr>selected_all := False, text_cursor := output_length s\<rparr> \<and>
    (\<forall>f \<in> {ime_session_cursor_left, ime_session_cursor_right, ime_session_cursor_home,
             ime_session_cursor_end}.
       \<not> selected_all (f s) \<and> sel_start (f s) = sel_start s \<and> sel_end (f s) = sel_end s \<and>
       text_cursor (f s) \<le> output_length (f s) \<and> output_length (f s) = output_length s \<and>
       sel_start (f (ime_session_clear_selection s)) = 0 \<and>
       sel_end (f (ime_session_clear_selection s)) = 0 \<and>
       \<not> selected_all (f (ime_session_clear_selection s)))"
proof -
  have l: "ime_session_cursor_left s =
      s\<lparr>selected_all := False, text_cursor := of_nat (unat (text_cursor s) - 1)\<rparr>"
  proof (cases "text_cursor s = 0")
    case True
    then show ?thesis using assms by (simp add: ime_session_cursor_left_def)
  next
    case False
    then have "0 < text_cursor s" by (simp add: word_greater_zero_iff)
    moreover have "of_nat (unat (text_cursor s) - 1) = text_cursor s - 1"
      using unat_minus_one [OF False] by (metis of_nat_unat ucast_id)
    ultimately show ?thesis using assms by (simp add: ime_session_cursor_left_def Let_def)
  qed
  have r: "ime_session_cursor_right s =
      s\<lparr>selected_all := False,
        text_cursor := of_nat (min (unat (text_cursor s) + 1) (unat (output_length s)))\<rparr>"
  proof (cases "text_cursor s < output_length s")
    case True
    then have "unat (text_cursor s) + 1 \<le> unat (output_length s)"
      by (simp add: word_less_nat_alt)
    then have "of_nat (min (unat (text_cursor s) + 1) (unat (output_length s))) = text_cursor s + 1"
      by (simp add: min_def)
    then show ?thesis using assms True by (simp add: ime_session_cursor_right_def Let_def)
  next
    case False
    then have "text_cursor s = output_length s" using assms by simp
    then have "of_nat (min (unat (text_cursor s) + 1) (unat (output_length s))) = text_cursor s"
      by (simp add: min_def)
    moreover have "s\<lparr>selected_all := False, text_cursor := text_cursor s\<rparr> = s\<lparr>selected_all := False\<rparr>"
      by simp
    ultimately show ?thesis using assms False by (simp add: ime_session_cursor_right_def Let_def)
  qed
  have h: "ime_session_cursor_home s = s\<lparr>selected_all := False, text_cursor := 0\<rparr>"
    using assms by (simp add: ime_session_cursor_home_def)
  have e: "ime_session_cursor_end s = s\<lparr>selected_all := False, text_cursor := output_length s\<rparr>"
    using assms by (simp add: ime_session_cursor_end_def)
  have le: "text_cursor (ime_session_cursor_left s) \<le> output_length s"
    using assms by (simp add: ime_session_cursor_left_def Let_def) unat_arith
  have re: "text_cursor (ime_session_cursor_right s) \<le> output_length s"
    using assms by (simp add: ime_session_cursor_right_def Let_def) unat_arith
  have p: "\<not> selected_all (f s) \<and> sel_start (f s) = sel_start s \<and> sel_end (f s) = sel_end s \<and>
       text_cursor (f s) \<le> output_length (f s) \<and> output_length (f s) = output_length s \<and>
       sel_start (f (ime_session_clear_selection s)) = 0 \<and>
       sel_end (f (ime_session_clear_selection s)) = 0 \<and>
       \<not> selected_all (f (ime_session_clear_selection s))"
    if "f \<in> {ime_session_cursor_left, ime_session_cursor_right, ime_session_cursor_home,
             ime_session_cursor_end}" for f
  proof -
    from that consider "f = ime_session_cursor_left" | "f = ime_session_cursor_right"
      | "f = ime_session_cursor_home" | "f = ime_session_cursor_end" by auto
    then show ?thesis
    proof cases
      case 1
      have "text_cursor (f s) \<le> output_length (f s)" using le l 1 by simp
      then show ?thesis using assms 1
        by (simp add: ime_session_cursor_left_def Let_def ime_session_clear_selection_def)
    next
      case 2
      have "text_cursor (f s) \<le> output_length (f s)" using re r 2 by simp
      then show ?thesis using assms 2
        by (simp add: ime_session_cursor_right_def Let_def ime_session_clear_selection_def)
    next
      case 3
      then show ?thesis using assms
        by (simp add: ime_session_cursor_home_def ime_session_clear_selection_def)
    next
      case 4
      then show ?thesis using assms
        by (simp add: ime_session_cursor_end_def ime_session_clear_selection_def)
    qed
  qed
  show ?thesis using l r h e p by blast
qed

theorem cursor_moves_clear_select_all_witness:
  "ime_session_cursor_left abc_selected = abc_selected\<lparr>selected_all := False, text_cursor := 1\<rparr> \<and>
   ime_session_cursor_right abc_selected = abc_selected\<lparr>selected_all := False, text_cursor := 3\<rparr> \<and>
   sel_end (ime_session_cursor_left abc_selected) = 3 \<and>
   sel_end (ime_session_cursor_left (ime_session_clear_selection abc_selected)) = 0"
proof -
  have a: "state abc_selected = IME_STATE_ACTIVE" by (rule abc_selected_facts)
  have b: "text_cursor abc_selected \<le> output_length abc_selected"
    by (simp add: abc_selected_facts)
  from cursor_moves_clear_select_all [OF a b] show ?thesis
    by (simp add: abc_selected_facts)
qed

section \<open>Cycling through the charset\<close>

lemma smod_pos_wrap:
  fixes k l :: int
  assumes "0 < l"
  shows "(if k smod l < 0 then k smod l + l else k smod l) = k mod l"
proof (cases "0 \<le> k")
  case True
  moreover have "0 \<le> k mod l" using assms by simp
  ultimately show ?thesis using assms by (simp add: signed_modulo_int_def sgn_if not_less)
next
  case False
  then have k: "k < 0" by simp
  have e: "k smod l = - ((- k) mod l)"
    using k assms by (simp add: signed_modulo_int_def sgn_if)
  have m: "(- k) mod l = (if k mod l = 0 then 0 else l - k mod l)"
    by (rule zmod_zminus1_eq_if)
  have "0 \<le> k mod l" "k mod l < l" using assms by simp_all
  then show ?thesis using e m by (simp split: if_splits)
qed

lemma wrap_index_mod:
  "len \<noteq> 0 \<Longrightarrow> wrap_index k len = word_of_int (k mod uint len)"
proof -
  assume "len \<noteq> 0"
  then have "0 < uint len" by (simp add: uint_0_iff order_less_le)
  from smod_pos_wrap [OF this, of k] show ?thesis
    using \<open>len \<noteq> 0\<close> by (simp add: wrap_index_def Let_def)
qed

lemma uint_wrap_index:
  "len \<noteq> 0 \<Longrightarrow> uint (wrap_index k len) = k mod uint len"
proof -
  assume n: "len \<noteq> 0"
  then have p: "0 < uint len" by (simp add: uint_0_iff order_less_le)
  have "0 \<le> k mod uint len" "k mod uint len < uint len" using p by simp_all
  moreover have "uint len < 2 ^ 32" using uint_lt2p [of len] by simp
  ultimately have "uint (word_of_int (k mod uint len) :: u32) = k mod uint len"
    by (simp add: uint_word_of_int take_bit_int_eq_self)
  then show ?thesis using n by (simp add: wrap_index_mod)
qed


lemma charset_length_pos: "len \<noteq> (0::u32) \<Longrightarrow> 0 < uint len"
  by (simp add: uint_0_iff order_less_le)

lemma ime_session_cycle_active:
  "state s = IME_STATE_ACTIVE \<Longrightarrow> charset_length s \<noteq> 0 \<Longrightarrow>
   ime_session_cycle d s =
     s\<lparr>cursor_index := word_of_int ((uint (cursor_index s) + sint d) mod uint (charset_length s))\<rparr>"
  by (simp add: ime_session_cycle_def wrap_index_mod)

lemma uint_mod_word:
  "len \<noteq> (0::u32) \<Longrightarrow> uint (word_of_int (k mod uint len) :: u32) = k mod uint len"
  using uint_wrap_index [of len k] by (simp add: wrap_index_mod)

lemma cycle_funpow:
  assumes a: "state s = IME_STATE_ACTIVE" and n: "charset_length s \<noteq> 0"
    and i: "cursor_index s < charset_length s"
  shows "(ime_session_cycle 1 ^^ k) s =
     s\<lparr>cursor_index := word_of_int ((uint (cursor_index s) + int k) mod uint (charset_length s))\<rparr>"
proof (induction k)
  case 0
  have "uint (cursor_index s) < uint (charset_length s)" using i by (simp add: word_less_def)
  then have "uint (cursor_index s) mod uint (charset_length s) = uint (cursor_index s)"
    by simp
  then show ?case by simp
next
  case (Suc k)
  let ?n = "uint (charset_length s)"
  let ?w = "word_of_int ((uint (cursor_index s) + int k) mod ?n) :: u32"
  have u: "uint ?w = (uint (cursor_index s) + int k) mod ?n"
    using n by (rule uint_mod_word)
  have "(ime_session_cycle 1 ^^ Suc k) s = ime_session_cycle 1 (s\<lparr>cursor_index := ?w\<rparr>)"
    using Suc by simp
  also have "\<dots> = s\<lparr>cursor_index := word_of_int ((uint ?w + 1) mod ?n)\<rparr>"
    using a n by (simp add: ime_session_cycle_active)
  also have "(uint ?w + 1) mod ?n = (uint (cursor_index s) + int (Suc k)) mod ?n"
  proof -
    have "((uint (cursor_index s) + int k) mod ?n + 1) mod ?n =
        (uint (cursor_index s) + int k + 1) mod ?n"
      by (rule mod_add_left_eq)
    also have "uint (cursor_index s) + int k + 1 = uint (cursor_index s) + int (Suc k)"
      by simp
    finally show ?thesis unfolding u .
  qed
  finally show ?case .
qed

text \<open>
  The cycle cursor stays inside a non-empty charset: \<open>ime_session_init\<close> and
  \<open>ime_session_confirm_char\<close> set it to 0 and \<open>ime_session_cycle\<close> stores a wrapped
  index.
\<close>

lemma ime_session_cycle_in_charset:
  assumes "state s = IME_STATE_ACTIVE" and "charset_length s \<noteq> 0"
  shows "cursor_index (ime_session_cycle d s) < charset_length s"
proof -
  have "0 < uint (charset_length s)" using assms(2) by (rule charset_length_pos)
  then have "(uint (cursor_index s) + sint d) mod uint (charset_length s) < uint (charset_length s)"
    by simp
  then show ?thesis
    using assms by (simp add: ime_session_cycle_active word_less_def uint_mod_word)
qed

text \<open>
  Claim C8. In an active session with a charset of \<open>n > 0\<close> characters,
  \<open>ime_session_cycle\<close> moves the cycle cursor by \<open>delta\<close> modulo \<open>n\<close>, in both
  directions. With the cycle cursor inside the charset, \<open>n\<close> steps of \<open>+1\<close> give the
  session back, and so does \<open>-1\<close> after \<open>+1\<close>; \<open>-1\<close> from index 0 gives index
  \<open>n - 1\<close>. With an empty charset the call changes nothing.
\<close>

theorem ime_session_cycle_wraps:
  assumes "state s = IME_STATE_ACTIVE"
  shows "(charset_length s \<noteq> 0 \<longrightarrow>
            uint (cursor_index (ime_session_cycle d s)) =
              (uint (cursor_index s) + sint d) mod uint (charset_length s)) \<and>
         (charset_length s \<noteq> 0 \<and> cursor_index s < charset_length s \<longrightarrow>
            (ime_session_cycle 1 ^^ unat (charset_length s)) s = s \<and>
            ime_session_cycle (- 1) (ime_session_cycle 1 s) = s) \<and>
         (charset_length s \<noteq> 0 \<and> cursor_index s = 0 \<longrightarrow>
            cursor_index (ime_session_cycle (- 1) s) = charset_length s - 1) \<and>
         (charset_length s = 0 \<longrightarrow> ime_session_cycle d s = s)"
proof (intro conjI impI)
  assume n: "charset_length s \<noteq> 0"
  show "uint (cursor_index (ime_session_cycle d s)) =
      (uint (cursor_index s) + sint d) mod uint (charset_length s)"
    using assms n by (simp add: ime_session_cycle_active uint_mod_word)
next
  assume h: "charset_length s \<noteq> 0 \<and> cursor_index s < charset_length s"
  let ?n = "uint (charset_length s)"
  have lt: "uint (cursor_index s) < ?n" using h by (simp add: word_less_def)
  have m: "uint (cursor_index s) mod ?n = uint (cursor_index s)" using lt by simp
  have "(uint (cursor_index s) + int (unat (charset_length s))) mod ?n = uint (cursor_index s)"
    using m by simp
  then show "(ime_session_cycle 1 ^^ unat (charset_length s)) s = s"
    using cycle_funpow [OF assms, of "unat (charset_length s)"] h by simp
  have c1: "ime_session_cycle 1 s =
      s\<lparr>cursor_index := word_of_int ((uint (cursor_index s) + 1) mod ?n)\<rparr>"
    using assms h by (simp add: ime_session_cycle_active)
  have "ime_session_cycle (- 1) (ime_session_cycle 1 s) =
      s\<lparr>cursor_index := word_of_int (((uint (cursor_index s) + 1) mod ?n + - 1) mod ?n)\<rparr>"
    using assms h by (simp add: c1 ime_session_cycle_active uint_mod_word)
  also have "((uint (cursor_index s) + 1) mod ?n + - 1) mod ?n = (uint (cursor_index s) + 1 + - 1) mod ?n"
    by (rule mod_add_left_eq)
  finally show "ime_session_cycle (- 1) (ime_session_cycle 1 s) = s"
    using m by simp
next
  assume h: "charset_length s \<noteq> 0 \<and> cursor_index s = 0"
  let ?n = "uint (charset_length s)"
  have p: "0 < ?n" using h by (simp add: charset_length_pos)
  have "(- 1) mod ?n = ?n - 1" using p by (simp add: zmod_minus1)
  then show "cursor_index (ime_session_cycle (- 1) s) = charset_length s - 1"
    using assms h by (simp add: ime_session_cycle_active)
next
  assume "charset_length s = 0"
  then show "ime_session_cycle d s = s" by (simp add: ime_session_cycle_def)
qed

lemma numeric_session_facts:
  "state numeric_session = IME_STATE_ACTIVE" "charset_length numeric_session = 13"
  "cursor_index numeric_session = 3"
  by (code_simp, code_simp, code_simp)

theorem ime_session_cycle_wraps_witness:
  "(ime_session_cycle 1 ^^ 13) numeric_session = numeric_session \<and>
   ime_session_cycle (- 1) (ime_session_cycle 1 numeric_session) = numeric_session \<and>
   uint (cursor_index (ime_session_cycle (- 128) numeric_session)) = 5 \<and>
   cursor_index (ime_session_cycle (- 1) (numeric_session\<lparr>cursor_index := 0\<rparr>)) = 12 \<and>
   ime_session_cycle 1 (numeric_session\<lparr>charset_length := 0\<rparr>) = numeric_session\<lparr>charset_length := 0\<rparr>"
  using ime_session_cycle_wraps [of numeric_session "- 128"]
    ime_session_cycle_wraps [of "numeric_session\<lparr>cursor_index := 0\<rparr>" 1]
    ime_session_cycle_wraps [of "numeric_session\<lparr>charset_length := 0\<rparr>" 1]
  by (simp add: numeric_session_facts)

section \<open>Staleness recovery of the reader\<close>

lemma poll_first_seen:
  assumes "even (sequence m)" "ime_active m \<noteq> 0" "sequence m \<noteq> last_seq p"
  shows "tracking (sequence m) t m (poll_quiet t (p, m))"
  using assms
  by (simp add: tracking_def poll_quiet_def poll_iteration_def thumbgrid_ipc_read_def and_1_odd
      Let_def update_widgets_def)

lemma poll_waiting:
  assumes "tracking q t0 m pm" "even q" "sequence m = q" "ime_active m \<noteq> 0"
    "\<not> (0 < t0 \<and> IPC_STALE_TIMEOUT_US < t - t0)"
  shows "tracking q t0 m (poll_quiet t pm)"
  using assms
  by (cases pm)
     (auto simp add: tracking_def poll_quiet_def poll_iteration_def thumbgrid_ipc_read_def and_1_odd
      Let_def update_widgets_def)

lemma poll_detects:
  assumes "tracking q t0 m pm" "even q" "sequence m = q" "ime_active m \<noteq> 0"
    "0 < t0" "IPC_STALE_TIMEOUT_US < t - t0"
  shows "healed (poll_quiet t pm)"
  using assms
  by (cases pm)
     (auto simp add: tracking_def healed_def poll_quiet_def poll_iteration_def thumbgrid_ipc_read_def
      and_1_odd Let_def update_widgets_def)

lemma poll_healed: "healed pm \<Longrightarrow> healed (poll_quiet t pm)"
  by (cases pm)
     (auto simp add: healed_def poll_quiet_def poll_iteration_def thumbgrid_ipc_read_def
      and_1_odd Let_def update_widgets_def)

lemma poll_run_healed: "healed pm \<Longrightarrow> healed (poll_run ts pm)"
  by (induction ts arbitrary: pm) (simp_all add: poll_healed)

lemma poll_run_tracking:
  assumes "even q" "sequence m = q" "ime_active m \<noteq> 0" "0 < t0"
  shows "tracking q t0 m pm \<Longrightarrow>
     (if \<exists>t \<in> set ts. IPC_STALE_TIMEOUT_US < t - t0 then healed (poll_run ts pm)
      else tracking q t0 m (poll_run ts pm))"
proof (induction ts arbitrary: pm)
  case Nil
  then show ?case by simp
next
  case (Cons t ts)
  show ?case
  proof (cases "IPC_STALE_TIMEOUT_US < t - t0")
    case True
    then have "healed (poll_quiet t pm)"
      using poll_detects [OF Cons.prems assms(1-3) assms(4)] by simp
    then have "healed (poll_run ts (poll_quiet t pm))" by (rule poll_run_healed)
    then show ?thesis using True by simp
  next
    case False
    then have "tracking q t0 m (poll_quiet t pm)"
      using poll_waiting [OF Cons.prems assms(1-3)] by simp
    from Cons.IH [OF this] show ?thesis using False by simp
  qed
qed

text \<open>
  While the counter is odd every read is rejected, so the poll loop never reaches its stale
  check: the mapped record and the cached record stay as they are. Only
  \<open>ipc_reader_open\<close> repairs a counter left odd, when the reader attaches.
\<close>

lemma poll_run_odd_counter:
  "odd (sequence m) \<Longrightarrow>
   snd (poll_run ts (p, m)) = m \<and> g_cached_state (fst (poll_run ts (p, m))) = g_cached_state p \<and>
   grid_visible (fst (poll_run ts (p, m))) = grid_visible p"
proof (induction ts arbitrary: p)
  case Nil
  then show ?case by simp
next
  case (Cons t ts)
  have "poll_quiet t (p, m) = (p\<lparr>read_fail := read_fail p + 1, poll_count := poll_count p + 1\<rparr>, m)"
    using Cons.prems
    by (simp add: poll_quiet_def poll_iteration_def thumbgrid_ipc_read_def and_1_odd)
  then show ?case using Cons.IH [OF Cons.prems] by simp
qed

lemma ipc_reader_open_resets:
  "even (sequence (snd (ipc_reader_open p m))) \<and> ime_active (snd (ipc_reader_open p m)) = 0 \<and>
   g_cached_state (fst (ipc_reader_open p m)) = zero_shared_state"
  by (simp add: ipc_reader_open_def)

text \<open>
  Claim C7. No writer runs; the mapped record is active and its counter is even, so reads
  succeed, and differs from the counter the reader saw last, so the first poll, at process
  time \<open>t0 > 0\<close>, records it. Once a later poll comes more than \<open>IPC_STALE_TIMEOUT_US\<close>
  after \<open>t0\<close>, the reader has passed an inactive record to \<open>update_widgets\<close> and hidden
  the grid, and the mapped record has counter 0, which is even, and active flag 0; this
  stays so for the rest of the run.
\<close>

theorem stale_session_is_reset:
  assumes "even (sequence m)" and "ime_active m \<noteq> 0" and "sequence m \<noteq> last_seq p"
    and "0 < t0" and "t \<in> set ts" and "IPC_STALE_TIMEOUT_US < t - t0"
  shows "sequence (snd (poll_run (t0 # ts) (p, m))) = 0 \<and>
         even (sequence (snd (poll_run (t0 # ts) (p, m)))) \<and>
         ime_active (snd (poll_run (t0 # ts) (p, m))) = 0 \<and>
         ime_active (g_cached_state (fst (poll_run (t0 # ts) (p, m)))) = 0 \<and>
         \<not> grid_visible (fst (poll_run (t0 # ts) (p, m)))"
proof -
  have "tracking (sequence m) t0 m (poll_quiet t0 (p, m))"
    using assms(1-3) by (rule poll_first_seen)
  from poll_run_tracking [OF assms(1) refl assms(2) assms(4) this, of ts]
  have "healed (poll_run ts (poll_quiet t0 (p, m)))"
    using assms(5,6) by (auto split: if_splits)
  then show ?thesis by (simp add: healed_def)
qed

text \<open>
  Counter frozen at 42, polls at 1 s, 2 s, 3 s and 3.1 s: the grid is still shown after
  the third poll and the fourth resets the record.
\<close>

theorem stale_session_is_reset_witness:
  "sequence (snd (poll_run [1000000, 2000000, 3000000, 3100000] (poll_start, frozen_42))) = 0 \<and>
   ime_active (snd (poll_run [1000000, 2000000, 3000000, 3100000] (poll_start, frozen_42))) = 0 \<and>
   ime_active (g_cached_state (fst (poll_run [1000000, 2000000, 3000000, 3100000]
      (poll_start, frozen_42)))) = 0 \<and>
   \<not> grid_visible (fst (poll_run [1000000, 2000000, 3000000, 3100000] (poll_start, frozen_42))) \<and>
   grid_visible (fst (poll_run [1000000, 2000000, 3000000] (poll_start, frozen_42))) \<and>
   sequence (snd (poll_run [1000000, 2000000, 3000000] (poll_start, frozen_42))) = 42"
proof -
  have a: "even (sequence frozen_42)" "ime_active frozen_42 \<noteq> 0"
    "sequence frozen_42 \<noteq> last_seq poll_start"
    by (simp_all add: frozen_42_def poll_start_def)
  have b: "(0::u64) < 1000000" "(3100000::u64) \<in> set [2000000, 3000000, 3100000]"
    "IPC_STALE_TIMEOUT_US < 3100000 - 1000000"
    by (simp_all add: IPC_STALE_TIMEOUT_US_def)
  have c: "grid_visible (fst (poll_run [1000000, 2000000, 3000000] (poll_start, frozen_42))) \<and>
   sequence (snd (poll_run [1000000, 2000000, 3000000] (poll_start, frozen_42))) = 42"
    by code_simp
  from stale_session_is_reset [OF a b] c show ?thesis by simp
qed

section \<open>Array accesses and the shifting loops\<close>

lemma length_moved_left [simp]: "length (moved_left a i d len) = length a"
  by (simp add: moved_left_def)

lemma length_moved_right [simp]: "length (moved_right a pos k len) = length a"
  by (simp add: moved_right_def)

lemma nth_moved_left:
  "j < length a \<Longrightarrow> moved_left a i d len ! j = (if i \<le> j \<and> j + d < len then a ! (j + d) else a ! j)"
  by (simp add: moved_left_def)

lemma nth_moved_right:
  "j < length a \<Longrightarrow> moved_right a pos k len ! j = (if pos + k \<le> j \<and> j < len + k then a ! (j - k) else a ! j)"
  by (simp add: moved_right_def)

lemma bindF_Inr [simp]: "bindF (Inr x) f = f x"
  by (simp add: bindF_def)

lemma bindF_Inl [simp]: "bindF (Inl e) f = Inl e"
  by (simp add: bindF_def)

lemma load_in: "unat i < length a \<Longrightarrow> load a i = Inr (a ! unat i)"
  by (simp add: load_def)

lemma store_in: "unat i < length a \<Longrightarrow> store a i v = Inr (a[unat i := v])"
  by (simp add: store_def)

lemma store_out: "length a \<le> unat i \<Longrightarrow> store a i v = Inl (StoreOutOfBounds (unat i))"
  by (simp add: store_def)

declare delete_shift_loop.simps [simp del] insert_shift_loop.simps [simp del]
  backspace_shift_loop.simps [simp del] paste_shift_loop.simps [simp del]
  safe_u16_strlen_loop.simps [simp del] safe_u16_copy_loop.simps [simp del]
  charset_length_loop.simps [simp del]

lemma unat_add_small:
  "unat (x::u32) + unat y \<le> n \<Longrightarrow> n \<le> 256 \<Longrightarrow> unat (x + y) = unat x + unat y"
  by (subst unat_add_lem [THEN iffD1]) simp_all

lemma unat_Suc_small:
  "unat (x::u32) < n \<Longrightarrow> n \<le> 256 \<Longrightarrow> unat (x + 1) = unat x + 1"
  using unat_add_small [of x 1 n] by simp

lemma delete_shift_loop_moved:
  "unat i + unat d \<le> unat len \<Longrightarrow> unat len \<le> length a \<Longrightarrow> length a \<le> 256 \<Longrightarrow>
   delete_shift_loop a i d len = Inr (moved_left a (unat i) (unat d) (unat len))"
proof (induction a i d len rule: delete_shift_loop.induct)
  case (1 a i d len)
  have s: "unat (i + d) = unat i + unat d"
    using "1.prems" by (intro unat_add_small [of i d "length a"]) simp_all
  show ?case
  proof (cases "i + d < len")
    case True
    then have lt: "unat i + unat d < unat len" using s by (simp add: word_less_nat_alt)
    have i1: "unat (i + 1) = unat i + 1"
      using lt "1.prems" by (intro unat_Suc_small [of i "length a"]) simp_all
    let ?a' = "a[unat i := a ! (unat i + unat d)]"
    have ih: "delete_shift_loop ?a' (i + 1) d len = Inr (moved_left ?a' (unat (i + 1)) (unat d) (unat len))"
      using "1.prems" lt i1 by (intro "1.IH" [OF True]) simp_all
    have eq: "moved_left ?a' (unat i + 1) (unat d) (unat len) = moved_left a (unat i) (unat d) (unat len)"
      using lt "1.prems"
      by (intro nth_equalityI) (auto simp add: nth_moved_left nth_list_update)
    have "delete_shift_loop a i d len = delete_shift_loop ?a' (i + 1) d len"
      using True lt "1.prems" s
      by (subst delete_shift_loop.simps) (simp add: load_in store_in)
    then show ?thesis using ih eq i1 by simp
  next
    case False
    then have ge: "unat len \<le> unat i + unat d" using s by (simp add: word_less_nat_alt)
    have "moved_left a (unat i) (unat d) (unat len) = a"
      using ge by (intro nth_equalityI) (auto simp add: nth_moved_left)
    then show ?thesis using False by (subst delete_shift_loop.simps) simp
  qed
qed


lemma unat_pred: "(x::u32) \<noteq> 0 \<Longrightarrow> unat (x - 1) = unat x - 1"
  by (rule unat_minus_one)

lemma paste_shift_loop_moved:
  "unat i + unat k \<le> length a \<Longrightarrow> length a \<le> 256 \<Longrightarrow>
   paste_shift_loop a i pos k = Inr (moved_right a (unat pos) (unat k) (unat i))"
proof (induction a i pos k rule: paste_shift_loop.induct)
  case (1 a i pos k)
  show ?case
  proof (cases "pos < i")
    case True
    then have lt: "unat pos < unat i" by (simp add: word_less_nat_alt)
    then have nz: "i \<noteq> 0" by auto
    have p: "unat (i - 1) = unat i - 1" using nz by (rule unat_pred)
    have s: "unat (i + k) = unat i + unat k"
      using "1.prems" by (intro unat_add_small [of i k "length a"]) simp_all
    have nz2: "i + k \<noteq> 0" using s lt by (metis add_is_0 not_less_zero unat_0)
    have q: "unat (i + k - 1) = unat i + unat k - 1" using unat_pred [OF nz2] s by simp
    let ?a' = "a[unat i + unat k - 1 := a ! (unat i - 1)]"
    have ih: "paste_shift_loop ?a' (i - 1) pos k = Inr (moved_right ?a' (unat pos) (unat k) (unat (i - 1)))"
      using "1.prems" lt p by (intro "1.IH" [OF True]) simp_all
    have eq: "moved_right ?a' (unat pos) (unat k) (unat i - 1) = moved_right a (unat pos) (unat k) (unat i)"
      using lt "1.prems"
      by (intro nth_equalityI) (auto simp add: nth_moved_right nth_list_update)
    have "paste_shift_loop a i pos k = paste_shift_loop ?a' (i - 1) pos k"
      using True lt "1.prems" p q
      by (subst paste_shift_loop.simps) (simp add: load_in store_in)
    then show ?thesis using ih eq p by simp
  next
    case False
    then have ge: "unat i \<le> unat pos" by (simp add: word_less_nat_alt)
    have "moved_right a (unat pos) (unat k) (unat i) = a"
      using ge by (intro nth_equalityI) (auto simp add: nth_moved_right)
    then show ?thesis using False by (subst paste_shift_loop.simps) simp
  qed
qed

lemma insert_shift_loop_paste: "insert_shift_loop a i pos = paste_shift_loop a i pos 1"
proof (induction a i pos rule: insert_shift_loop.induct)
  case (1 a i pos)
  show ?case
  proof (cases "pos < i")
    case True
    show ?thesis
      apply (subst insert_shift_loop.simps)
      apply (subst paste_shift_loop.simps)
      using True "1.IH" [OF True]
      apply (simp add: bindF_def split: sum.splits)
      done
  next
    case False
    then show ?thesis
      by (subst insert_shift_loop.simps, subst paste_shift_loop.simps) simp
  qed
qed

lemma insert_shift_loop_moved:
  "unat i < length a \<Longrightarrow> length a \<le> 256 \<Longrightarrow>
   insert_shift_loop a i pos = Inr (moved_right a (unat pos) 1 (unat i))"
  using paste_shift_loop_moved [of i 1 a pos] by (simp add: insert_shift_loop_paste)

lemma backspace_shift_loop_moved:
  "len \<noteq> 0 \<Longrightarrow> unat len \<le> length a \<Longrightarrow> length a \<le> 256 \<Longrightarrow>
   backspace_shift_loop a i len = Inr (moved_left a (unat i) 1 (unat len))"
proof (induction a i len rule: backspace_shift_loop.induct)
  case (1 a i len)
  have p: "unat (len - 1) = unat len - 1" using "1.prems"(1) by (rule unat_pred)
  show ?case
  proof (cases "i < len - 1")
    case True
    then have lt: "unat i + 1 < unat len" using p by (simp add: word_less_nat_alt)
    have i1: "unat (i + 1) = unat i + 1"
      using lt "1.prems" by (intro unat_Suc_small [of i "length a"]) simp_all
    let ?a' = "a[unat i := a ! (unat i + 1)]"
    have ih: "backspace_shift_loop ?a' (i + 1) len = Inr (moved_left ?a' (unat (i + 1)) 1 (unat len))"
      using "1.prems" by (intro "1.IH" [OF True]) simp_all
    have eq: "moved_left ?a' (unat i + 1) 1 (unat len) = moved_left a (unat i) 1 (unat len)"
      using lt "1.prems"
      by (intro nth_equalityI) (auto simp add: nth_moved_left nth_list_update)
    have "backspace_shift_loop a i len = backspace_shift_loop ?a' (i + 1) len"
      using True lt "1.prems" i1
      by (subst backspace_shift_loop.simps) (simp add: load_in store_in)
    then show ?thesis using ih eq i1 by simp
  next
    case False
    then have ge: "unat len \<le> unat i + 1" using p by (simp add: word_less_nat_alt)
    have "moved_left a (unat i) 1 (unat len) = a"
      using ge by (intro nth_equalityI) (auto simp add: nth_moved_left)
    then show ?thesis using False by (subst backspace_shift_loop.simps) simp
  qed
qed

section \<open>The invariant of the text fields\<close>

lemma session_ok_nat:
  "session_ok s \<longleftrightarrow>
     length (output s) = 256 \<and> length (clipboard s) = 256 \<and>
     unat (max_output_length s) \<le> 256 \<and>
     charset_ok (charset s) (charset_length s) \<and>
     caller_buffer_ok (caller_buffer s) (max_output_length s) \<and>
     unat (text_cursor s) \<le> unat (output_length s) \<and>
     unat (output_length s) \<le> unat (max_output_length s) \<and>
     unat (sel_start s) \<le> unat (sel_end s) \<and>
     (sel_start s \<noteq> sel_end s \<longrightarrow> unat (sel_end s) \<le> unat (output_length s))"
  by (auto simp add: session_ok_def session_wf_def session_inv_def word_le_nat_alt
      IME_MAX_OUTPUT_LENGTH_def)

lemma keeps_ok_Inr: "session_ok s' \<Longrightarrow> max_output_length s' = max_output_length s \<Longrightarrow> keeps_ok s (Inr s')"
  by (simp add: keeps_ok_def)

lemma unat_sub_le: "(y::u32) \<le> x \<Longrightarrow> unat (x - y) = unat x - unat y"
  by (rule unat_sub)

lemma delete_selection_effect:
  assumes ok: "session_ok s" and a: "state s = IME_STATE_ACTIVE" and ne: "sel_start s \<noteq> sel_end s"
  shows "ime_session_delete_selection s =
     Inr (s\<lparr>output := (moved_left (output s) (unat (sel_start s)) (unat (sel_end s) - unat (sel_start s))
                         (unat (output_length s)))
                      [unat (output_length s) - (unat (sel_end s) - unat (sel_start s)) := 0],
           output_length := output_length s - (sel_end s - sel_start s),
           text_cursor := sel_start s, sel_start := 0, sel_end := 0, selected_all := False\<rparr>)"
proof -
  from ok ne have n: "length (output s) = 256" "unat (sel_start s) \<le> unat (sel_end s)"
    "unat (sel_end s) \<le> unat (output_length s)" "unat (output_length s) \<le> 256"
    by (auto simp add: session_ok_nat)
  have lt: "unat (sel_start s) < unat (sel_end s)"
    using n(2) ne by (metis le_neq_implies_less word_unat_eq_iff)
  have w: "sel_start s \<le> sel_end s" "sel_end s \<le> output_length s" "sel_start s \<le> output_length s"
    using n by (simp_all add: word_le_nat_alt)
  have d: "unat (sel_end s - sel_start s) = unat (sel_end s) - unat (sel_start s)"
    using w(1) by (rule unat_sub_le)
  have dl: "sel_end s - sel_start s \<le> output_length s"
    using d n by (simp add: word_le_nat_alt)
  have l: "unat (output_length s - (sel_end s - sel_start s)) =
      unat (output_length s) - (unat (sel_end s) - unat (sel_start s))"
    using unat_sub_le [OF dl] d by simp
  have loop: "delete_shift_loop (output s) (sel_start s) (sel_end s - sel_start s) (output_length s) =
      Inr (moved_left (output s) (unat (sel_start s)) (unat (sel_end s) - unat (sel_start s))
             (unat (output_length s)))"
    using delete_shift_loop_moved [of "sel_start s" "sel_end s - sel_start s" "output_length s" "output s"]
      n d by simp
  have nw: "\<not> sel_end s < sel_start s" "\<not> output_length s < sel_end s" "\<not> output_length s < sel_start s"
    using w by (simp_all add: not_less)
  show ?thesis
    using a ne nw loop l lt n
    by (simp add: ime_session_delete_selection_def Let_def store_in)
qed

lemma delete_selection_keeps:
  assumes ok: "session_ok s"
  shows "keeps_ok s (ime_session_delete_selection s)"
proof (cases "state s = IME_STATE_ACTIVE \<and> sel_start s \<noteq> sel_end s")
  case False
  then show ?thesis using ok
    by (auto simp add: ime_session_delete_selection_def keeps_ok_def)
next
  case True
  from ok True have n: "unat (sel_start s) \<le> unat (sel_end s)"
    "unat (sel_end s) \<le> unat (output_length s)" "unat (output_length s) \<le> unat (max_output_length s)"
    by (auto simp add: session_ok_nat)
  have w: "sel_start s \<le> sel_end s" using n by (simp add: word_le_nat_alt)
  have d: "unat (sel_end s - sel_start s) = unat (sel_end s) - unat (sel_start s)"
    using w by (rule unat_sub_le)
  have dl: "sel_end s - sel_start s \<le> output_length s"
    using d n by (simp add: word_le_nat_alt)
  have l: "unat (output_length s - (sel_end s - sel_start s)) =
      unat (output_length s) - (unat (sel_end s) - unat (sel_start s))"
    using unat_sub_le [OF dl] d by simp
  show ?thesis
    using ok True n l
    by (simp add: delete_selection_effect keeps_ok_def) (auto simp add: session_ok_nat)
qed

lemma clear_all_selected_effect:
  "session_ok s \<Longrightarrow>
   clear_all_selected s =
     Inr (s\<lparr>output_length := 0, text_cursor := 0, output := (output s)[0 := 0],
           selected_all := False, sel_start := 0, sel_end := 0\<rparr>)"
  by (simp add: clear_all_selected_def session_ok_nat store_in)

lemma clear_all_selected_keeps: "session_ok s \<Longrightarrow> keeps_ok s (clear_all_selected s)"
  by (simp add: clear_all_selected_effect keeps_ok_def) (simp add: session_ok_nat)

lemma clear_if_selected_keeps: "session_ok s \<Longrightarrow> keeps_ok s (clear_if_selected s)"
  by (simp add: clear_if_selected_def clear_all_selected_keeps delete_selection_keeps)
     (simp add: keeps_ok_def)

text \<open>After the implicit delete no selection is left, and nothing has faulted.\<close>

lemma clear_if_selected_result:
  assumes "session_ok s" and "state s = IME_STATE_ACTIVE"
  shows "\<exists>s1. clear_if_selected s = Inr s1 \<and> session_ok s1 \<and> state s1 = IME_STATE_ACTIVE \<and>
           max_output_length s1 = max_output_length s \<and> sel_start s1 = sel_end s1 \<and>
           \<not> selected_all s1 \<and> clipboard s1 = clipboard s \<and> clipboard_length s1 = clipboard_length s"
proof -
  consider "selected_all s" | "\<not> selected_all s" "sel_start s \<noteq> sel_end s"
    | "\<not> selected_all s" "sel_start s = sel_end s" by blast
  then show ?thesis
  proof cases
    case 1
    have "keeps_ok s (clear_all_selected s)" using assms(1) by (rule clear_all_selected_keeps)
    then show ?thesis using 1 assms
      by (simp add: clear_if_selected_def clear_all_selected_effect keeps_ok_def)
  next
    case 2
    have "keeps_ok s (ime_session_delete_selection s)" using assms(1) by (rule delete_selection_keeps)
    then show ?thesis using 2 assms
      by (simp add: clear_if_selected_def delete_selection_effect keeps_ok_def)
  next
    case 3
    then show ?thesis using assms by (simp add: clear_if_selected_def)
  qed
qed

lemma add_char16_keeps:
  assumes ok: "session_ok s"
  shows "keeps_ok s (drop_result (ime_session_add_char16 c s))"
proof (cases "state s = IME_STATE_ACTIVE")
  case False
  then show ?thesis using ok
    by (simp add: ime_session_add_char16_def drop_result_def keeps_ok_def)
next
  case True
  from clear_if_selected_result [OF ok True] obtain s1 where
    s1: "clear_if_selected s = Inr s1" "session_ok s1" "max_output_length s1 = max_output_length s"
      "sel_start s1 = sel_end s1"
    by blast
  show ?thesis
  proof (cases "max_output_length s1 \<le> output_length s1")
    case True
    then show ?thesis using \<open>state s = IME_STATE_ACTIVE\<close> s1
      by (simp add: ime_session_add_char16_def drop_result_def keeps_ok_def)
  next
    case False
    from s1(2) have n: "length (output s1) = 256" "unat (text_cursor s1) \<le> unat (output_length s1)"
      "unat (max_output_length s1) \<le> 256"
      by (auto simp add: session_ok_nat)
    have lt: "unat (output_length s1) < unat (max_output_length s1)"
      using False by (simp add: word_less_nat_alt not_le)
    have p: "\<not> output_length s1 < text_cursor s1" using n by (simp add: word_less_nat_alt)
    have l1: "unat (output_length s1 + 1) = unat (output_length s1) + 1"
      using lt n by (intro unat_Suc_small [of _ "unat (max_output_length s1)"]) simp_all
    have p1: "unat (text_cursor s1 + 1) = unat (text_cursor s1) + 1"
      using lt n by (intro unat_Suc_small [of _ "unat (max_output_length s1)"]) simp_all
    have loop: "insert_shift_loop (output s1) (output_length s1) (text_cursor s1) =
        Inr (moved_right (output s1) (unat (text_cursor s1)) 1 (unat (output_length s1)))"
      using lt n by (intro insert_shift_loop_moved) simp_all
    show ?thesis
    proof (cases "unat (output_length s1) + 1 < 256")
      case True
      then show ?thesis
        using \<open>state s = IME_STATE_ACTIVE\<close> s1 False p loop l1 p1 n lt
        by (simp add: ime_session_add_char16_def drop_result_def keeps_ok_def Let_def store_in)
           (simp add: session_ok_nat)
    next
      case f: False
      then have "unat (output_length s1) + 1 = 256" "max_output_length s1 = 256"
        using lt n by (simp_all add: word_unat_eq_iff)
      then show ?thesis
        using \<open>state s = IME_STATE_ACTIVE\<close> s1 False p loop l1 p1 n lt
        by (simp add: ime_session_add_char16_def drop_result_def keeps_ok_def Let_def store_in
            store_out)
    qed
  qed
qed

lemma keeps_ok_max:
  "keeps_ok s1 r \<Longrightarrow> max_output_length s1 = max_output_length s \<Longrightarrow> keeps_ok s r"
  by (simp add: keeps_ok_def split: sum.splits)

lemma backspace_keeps:
  assumes ok: "session_ok s"
  shows "keeps_ok s (drop_result (ime_session_backspace s))"
proof -
  consider "state s \<noteq> IME_STATE_ACTIVE"
    | "state s = IME_STATE_ACTIVE" "selected_all s"
    | "state s = IME_STATE_ACTIVE" "\<not> selected_all s" "sel_start s \<noteq> sel_end s"
    | "state s = IME_STATE_ACTIVE" "\<not> selected_all s" "sel_start s = sel_end s"
      "text_cursor s = 0 \<or> output_length s = 0"
    | "state s = IME_STATE_ACTIVE" "\<not> selected_all s" "sel_start s = sel_end s"
      "text_cursor s \<noteq> 0" "output_length s \<noteq> 0"
    by blast
  then show ?thesis
  proof cases
    case 1
    then show ?thesis using ok by (simp add: ime_session_backspace_def drop_result_def keeps_ok_def)
  next
    case 2
    have "keeps_ok s (clear_all_selected s)" using ok by (rule clear_all_selected_keeps)
    then show ?thesis using 2 ok
      by (simp add: ime_session_backspace_def drop_result_def clear_all_selected_effect)
  next
    case 3
    have "keeps_ok s (ime_session_delete_selection s)" using ok by (rule delete_selection_keeps)
    then show ?thesis using 3 ok
      by (simp add: ime_session_backspace_def drop_result_def delete_selection_effect)
  next
    case 4
    then show ?thesis using ok
      by (auto simp add: ime_session_backspace_def drop_result_def keeps_ok_def)
  next
    case 5
    from ok have n: "length (output s) = 256" "unat (text_cursor s) \<le> unat (output_length s)"
      "unat (output_length s) \<le> unat (max_output_length s)" "unat (max_output_length s) \<le> 256"
      by (auto simp add: session_ok_nat)
    have l: "unat (output_length s - 1) = unat (output_length s) - 1"
      using 5 by (simp add: unat_pred)
    have p: "unat (text_cursor s - 1) = unat (text_cursor s) - 1"
      using 5 by (simp add: unat_pred)
    have pos: "0 < unat (output_length s)" using 5 by (simp add: unat_gt_0)
    have loop: "backspace_shift_loop (output s) (text_cursor s - 1) (output_length s) =
        Inr (moved_left (output s) (unat (text_cursor s - 1)) 1 (unat (output_length s)))"
      using 5 n by (intro backspace_shift_loop_moved) simp_all
    show ?thesis
      using 5 ok loop l p n pos
      by (simp add: ime_session_backspace_def drop_result_def keeps_ok_def Let_def store_in)
         (auto simp add: session_ok_nat)
  qed
qed

lemma memcpy_u16_in:
  "soff + n \<le> length src \<Longrightarrow> doff + n \<le> length dst \<Longrightarrow>
   memcpy_u16 dst doff src soff n = Inr (take doff dst @ take n (drop soff src) @ drop (doff + n) dst)"
  by (simp add: memcpy_u16_def)

text \<open>The range that copy takes: the whole text under select-all, else the selected range.\<close>

lemma copy_effect:
  assumes ok: "session_ok s" and a: "state s = IME_STATE_ACTIVE"
    and sel: "selected_all s \<or> sel_start s \<noteq> sel_end s"
  shows "ime_session_copy s =
     Inr (s\<lparr>clipboard :=
             take (if selected_all s then unat (output_length s)
                   else unat (sel_end s) - unat (sel_start s))
               (drop (if selected_all s then 0 else unat (sel_start s)) (output s)) @
             drop (if selected_all s then unat (output_length s)
                   else unat (sel_end s) - unat (sel_start s)) (clipboard s),
           clipboard_length :=
             (if selected_all s then output_length s else sel_end s - sel_start s)\<rparr>)"
proof -
  from ok have n: "length (output s) = 256" "length (clipboard s) = 256"
    "unat (output_length s) \<le> unat (max_output_length s)" "unat (max_output_length s) \<le> 256"
    "unat (sel_start s) \<le> unat (sel_end s)"
    "sel_start s \<noteq> sel_end s \<longrightarrow> unat (sel_end s) \<le> unat (output_length s)"
    by (auto simp add: session_ok_nat)
  show ?thesis
  proof (cases "selected_all s")
    case True
    have c: "\<not> IME_MAX_OUTPUT_LENGTH < output_length s"
      using n by (simp add: word_less_nat_alt IME_MAX_OUTPUT_LENGTH_def)
    show ?thesis using True a n c
      by (simp add: ime_session_copy_def Let_def memcpy_u16_in)
  next
    case False
    then have ne: "sel_start s \<noteq> sel_end s" using sel by simp
    have w: "sel_start s \<le> sel_end s" using n by (simp add: word_le_nat_alt)
    have d: "unat (sel_end s - sel_start s) = unat (sel_end s) - unat (sel_start s)"
      using w by (rule unat_sub_le)
    have c: "\<not> IME_MAX_OUTPUT_LENGTH < sel_end s - sel_start s"
      using n d ne by (simp add: word_less_nat_alt IME_MAX_OUTPUT_LENGTH_def)
    have nw: "\<not> sel_end s < sel_start s" using w by (simp add: not_less)
    show ?thesis using False ne a n c d nw
      by (simp add: ime_session_copy_def Let_def memcpy_u16_in)
  qed
qed

lemma copy_keeps:
  assumes ok: "session_ok s"
  shows "keeps_ok s (ime_session_copy s)"
proof (cases "state s = IME_STATE_ACTIVE \<and> (selected_all s \<or> sel_start s \<noteq> sel_end s)")
  case False
  then show ?thesis using ok by (auto simp add: ime_session_copy_def keeps_ok_def)
next
  case True
  from ok have n: "length (output s) = 256" "length (clipboard s) = 256"
    "unat (output_length s) \<le> unat (max_output_length s)" "unat (max_output_length s) \<le> 256"
    "unat (sel_start s) \<le> unat (sel_end s)"
    "sel_start s \<noteq> sel_end s \<longrightarrow> unat (sel_end s) \<le> unat (output_length s)"
    by (auto simp add: session_ok_nat)
  show ?thesis
    using True ok n
    by (simp add: copy_effect keeps_ok_def) (auto simp add: session_ok_nat)
qed

lemma cut_keeps:
  assumes ok: "session_ok s"
  shows "keeps_ok s (ime_session_cut s)"
proof (cases "state s = IME_STATE_ACTIVE")
  case False
  then show ?thesis using ok by (simp add: ime_session_cut_def keeps_ok_def)
next
  case True
  have k: "keeps_ok s (ime_session_copy s)" using ok by (rule copy_keeps)
  have nf: "\<exists>s1. ime_session_copy s = Inr s1"
  proof (cases "selected_all s \<or> sel_start s \<noteq> sel_end s")
    case True
    then show ?thesis using copy_effect [OF ok \<open>state s = IME_STATE_ACTIVE\<close>] by blast
  next
    case False
    then show ?thesis by (simp add: ime_session_copy_def)
  qed
  then obtain s1 where s1: "ime_session_copy s = Inr s1" by blast
  with k have ok1: "session_ok s1" and m1: "max_output_length s1 = max_output_length s"
    by (simp_all add: keeps_ok_def)
  have "keeps_ok s (clear_all_selected s1)" "keeps_ok s (ime_session_delete_selection s1)"
    using ok1 m1 by (auto intro: keeps_ok_max clear_all_selected_keeps delete_selection_keeps)
  moreover have "keeps_ok s (Inr s1)" using ok1 m1 by (simp add: keeps_ok_def)
  ultimately show ?thesis using True s1
    by (simp add: ime_session_cut_def)
qed

lemma paste_unfold:
  assumes a: "state s = IME_STATE_ACTIVE"
    and ns: "\<not> selected_all s" "sel_start s = sel_end s"
    and c: "clipboard_length s \<noteq> 0"
    and pl: "pl = (if max_output_length s - output_length s < clipboard_length s
                  then max_output_length s - output_length s else clipboard_length s)"
    and np: "\<not> output_length s < text_cursor s"
  shows "ime_session_paste s =
     (if pl = 0 then Inr s else
      bindF (paste_shift_loop (output s) (output_length s) (text_cursor s) pl) (\<lambda>a1.
      bindF (memcpy_u16 a1 (unat (text_cursor s)) (clipboard s) 0 (unat pl)) (\<lambda>a2.
      bindF (store a2 (output_length s + pl) 0) (\<lambda>a3.
        Inr (s\<lparr>output := a3, output_length := output_length s + pl,
               text_cursor := text_cursor s + pl\<rparr>)))))"
  unfolding pl using a ns c np
  by (simp add: ime_session_paste_def Let_def)

text \<open>Paste into a session without a selection.\<close>

lemma paste_plain:
  assumes ok: "session_ok s" and a: "state s = IME_STATE_ACTIVE"
    and ns: "\<not> selected_all s" "sel_start s = sel_end s"
    and c: "clipboard_length s \<noteq> 0"
    and k: "k = min (unat (clipboard_length s)) (unat (max_output_length s) - unat (output_length s))"
    and p: "p = unat (text_cursor s)" and l: "l = unat (output_length s)"
  shows "ime_session_paste s =
     (if k = 0 then Inr s
      else if l + k = 256 then Inl (StoreOutOfBounds 256)
      else Inr (s\<lparr>output :=
                    (take p (moved_right (output s) p k l) @ take k (clipboard s) @
                     drop (p + k) (moved_right (output s) p k l))[l + k := 0],
                  output_length := of_nat (l + k), text_cursor := of_nat (p + k)\<rparr>))"
proof -
  from ok have n: "length (output s) = 256" "length (clipboard s) = 256"
    "unat (text_cursor s) \<le> unat (output_length s)"
    "unat (output_length s) \<le> unat (max_output_length s)" "unat (max_output_length s) \<le> 256"
    by (auto simp add: session_ok_nat)
  define pl where "pl = (if max_output_length s - output_length s < clipboard_length s
                  then max_output_length s - output_length s else clipboard_length s)"
  have av: "unat (max_output_length s - output_length s) =
      unat (max_output_length s) - unat (output_length s)"
    using n by (intro unat_sub_le) (simp add: word_le_nat_alt)
  have plk: "unat pl = k"
    using av by (auto simp add: pl_def k word_less_nat_alt min_def)
  have kb: "l + k \<le> unat (max_output_length s)" "p \<le> l" "l + k \<le> 256" "p + k \<le> 256"
    using n by (simp_all add: k l p)
  have np: "\<not> output_length s < text_cursor s" using n by (simp add: word_less_nat_alt)
  note u = paste_unfold [OF a ns c pl_def np]
  show ?thesis
  proof (cases "k = 0")
    case True
    then have "pl = 0" using plk by (simp add: unat_eq_zero)
    then show ?thesis using u True by simp
  next
    case False
    then have pl0: "pl \<noteq> 0" using plk by auto
    have lk: "unat (output_length s + pl) = l + k"
      using kb n plk unfolding l
      by (subst unat_add_small [of _ _ "unat (max_output_length s)"]) simp_all
    have pk: "unat (text_cursor s + pl) = p + k"
      using kb n plk unfolding l p
      by (subst unat_add_small [of _ _ "unat (max_output_length s)"]) simp_all
    have ol: "output_length s + pl = of_nat (l + k)"
      using lk by (metis of_nat_unat ucast_id)
    have tl: "text_cursor s + pl = of_nat (p + k)"
      using pk by (metis of_nat_unat ucast_id)
    have loop: "paste_shift_loop (output s) (output_length s) (text_cursor s) pl =
        Inr (moved_right (output s) p k l)"
      using kb n plk paste_shift_loop_moved [of "output_length s" pl "output s" "text_cursor s"]
      by (simp add: l p)
    have mc: "memcpy_u16 (moved_right (output s) p k l) p (clipboard s) 0 k =
        Inr (take p (moved_right (output s) p k l) @ take k (clipboard s) @
             drop (p + k) (moved_right (output s) p k l))"
      using kb n by (subst memcpy_u16_in) simp_all
    have len: "length (take p (moved_right (output s) p k l) @ take k (clipboard s) @
             drop (p + k) (moved_right (output s) p k l)) = 256"
      using kb n by simp
    have body: "ime_session_paste s =
        bindF (store (take p (moved_right (output s) p k l) @ take k (clipboard s) @
             drop (p + k) (moved_right (output s) p k l)) (output_length s + pl) 0)
          (\<lambda>a3. Inr (s\<lparr>output := a3, output_length := output_length s + pl,
                        text_cursor := text_cursor s + pl\<rparr>))"
      using u pl0 loop mc plk by (simp add: p [symmetric])
    show ?thesis
    proof (cases "l + k = 256")
      case True
      then show ?thesis
        using body lk len False by (simp add: store_out)
    next
      case f: False
      then have "l + k < 256" using kb by simp
      then show ?thesis
        using body lk len False f by (simp add: store_in ol tl)
    qed
  qed
qed

lemma paste_keeps:
  assumes ok: "session_ok s"
  shows "keeps_ok s (ime_session_paste s)"
proof (cases "state s = IME_STATE_ACTIVE \<and> clipboard_length s \<noteq> 0")
  case False
  then show ?thesis using ok by (auto simp add: ime_session_paste_def keeps_ok_def)
next
  case True
  from clear_if_selected_result [OF ok] True obtain s1 where
    s1: "clear_if_selected s = Inr s1" "session_ok s1" "state s1 = IME_STATE_ACTIVE"
      "max_output_length s1 = max_output_length s" "sel_start s1 = sel_end s1"
      "\<not> selected_all s1" "clipboard_length s1 = clipboard_length s"
    by blast
  have e: "ime_session_paste s = ime_session_paste s1"
  proof -
    have "ime_session_paste s = bindF (clear_if_selected s) (\<lambda>s1.
        let avail = max_output_length s1 - output_length s1;
            paste_len = (if avail < clipboard_length s1 then avail else clipboard_length s1)
        in if paste_len = 0 then Inr s1
           else (let pos = (if output_length s1 < text_cursor s1 then output_length s1
                            else text_cursor s1) in
             bindF (paste_shift_loop (output s1) (output_length s1) pos paste_len) (\<lambda>a1.
             bindF (memcpy_u16 a1 (unat pos) (clipboard s1) 0 (unat paste_len)) (\<lambda>a2.
             let len' = output_length s1 + paste_len in
             bindF (store a2 len' 0) (\<lambda>a3.
               Inr (s1\<lparr>output := a3, output_length := len',
                       text_cursor := pos + paste_len\<rparr>))))))"
      using True unfolding ime_session_paste_def clear_if_selected_def by simp
    also have "\<dots> = ime_session_paste s1"
      using s1 True unfolding ime_session_paste_def [of s1] by simp
    finally show ?thesis .
  qed
  from s1(2) have n: "length (output s1) = 256" "length (clipboard s1) = 256"
    "unat (text_cursor s1) \<le> unat (output_length s1)"
    "unat (output_length s1) \<le> unat (max_output_length s1)" "unat (max_output_length s1) \<le> 256"
    by (auto simp add: session_ok_nat)
  define k where "k = min (unat (clipboard_length s1)) (unat (max_output_length s1) - unat (output_length s1))"
  have c1: "clipboard_length s1 \<noteq> 0" using s1 True by simp
  note pp = paste_plain [OF s1(2) s1(3) s1(6) s1(5) c1 k_def refl refl]
  have kb: "unat (output_length s1) + k \<le> unat (max_output_length s1)"
    using n by (simp add: k_def)
  have m256: "unat (output_length s1) + k = 256 \<Longrightarrow> max_output_length s1 = 256"
    using kb n by (simp add: word_unat_eq_iff)
  have u1: "unat (of_nat (unat (output_length s1) + k) :: u32) = unat (output_length s1) + k"
    using kb by (intro le_unat_uoi [of _ "max_output_length s1"])
  have u2: "unat (of_nat (unat (text_cursor s1) + k) :: u32) = unat (text_cursor s1) + k"
    using kb n by (intro le_unat_uoi [of _ "max_output_length s1"]) simp
  have "keeps_ok s1 (ime_session_paste s1)"
    unfolding pp using s1(2) kb n m256 u1 u2 s1(5)
    by (simp add: keeps_ok_def) (auto simp add: session_ok_nat)
  then show ?thesis using e s1(4) by (simp add: keeps_ok_max)
qed

lemma confirm_char_keeps:
  assumes ok: "session_ok s"
  shows "keeps_ok s (drop_result (ime_session_confirm_char s))"
proof (cases "state s = IME_STATE_ACTIVE \<and> output_length s < max_output_length s \<and>
    cursor_index s < charset_length s")
  case False
  then show ?thesis using ok
    by (auto simp add: ime_session_confirm_char_def drop_result_def keeps_ok_def not_less)
next
  case True
  from ok have n: "length (output s) = 256" "unat (text_cursor s) \<le> unat (output_length s)"
    "unat (max_output_length s) \<le> 256" "charset_ok (charset s) (charset_length s)"
    "sel_start s \<noteq> sel_end s \<longrightarrow> unat (sel_end s) \<le> unat (output_length s)"
    by (auto simp add: session_ok_nat)
  have lt: "unat (output_length s) < unat (max_output_length s)"
    using True by (simp add: word_less_nat_alt)
  have ci: "unat (cursor_index s) < unat (charset_length s)"
    using True by (simp add: word_less_nat_alt)
  obtain cs where cs: "charset s = Some cs" "unat (charset_length s) \<le> length cs"
    using n(4) ci by (cases "charset s") (auto simp add: charset_ok_def)
  have ld: "load_charset (charset s) (cursor_index s) = Inr (cs ! unat (cursor_index s))"
    using cs ci by (simp add: load_charset_def load_in)
  have l1: "unat (output_length s + 1) = unat (output_length s) + 1"
    using lt n by (intro unat_Suc_small [of _ "unat (max_output_length s)"]) simp_all
  have g: "\<not> max_output_length s \<le> output_length s" "\<not> charset_length s \<le> cursor_index s"
    using True by (simp_all add: not_le)
  show ?thesis
  proof (cases "unat (output_length s) + 1 < 256")
    case t: True
    then show ?thesis
      using True ok g ld l1 n lt
      by (simp add: ime_session_confirm_char_def drop_result_def keeps_ok_def Let_def store_in)
         (auto simp add: session_ok_nat)
  next
    case False
    then have "unat (output_length s) + 1 = 256" "max_output_length s = 256"
      using lt n by (simp_all add: word_unat_eq_iff)
    then show ?thesis
      using True ok g ld l1 n lt
      by (simp add: ime_session_confirm_char_def drop_result_def keeps_ok_def Let_def store_in
          store_out)
  qed
qed

lemma safe_u16_copy_loop_ok:
  "unat limit < length dst \<Longrightarrow> unat limit \<le> length src \<Longrightarrow> unat i \<le> unat limit \<Longrightarrow>
   \<exists>d' j. safe_u16_copy_loop dst src i limit = Inr (d', j) \<and> length d' = length dst \<and>
          unat j \<le> unat limit"
proof (induction dst src i limit rule: safe_u16_copy_loop.induct)
  case (1 dst src i limit)
  show ?case
  proof (cases "i < limit")
    case True
    then have lt: "unat i < unat limit" by (simp add: word_less_nat_alt)
    have i1: "unat (i + 1) = unat i + 1"
      using True by unat_arith
    show ?thesis
    proof (cases "src ! unat i = 0")
      case z: True
      then show ?thesis using True lt "1.prems"
        by (subst safe_u16_copy_loop.simps) (simp add: load_in)
    next
      case nz: False
      have "\<exists>d' j. safe_u16_copy_loop (dst[unat i := src ! unat i]) src (i + 1) limit = Inr (d', j) \<and>
          length d' = length (dst[unat i := src ! unat i]) \<and> unat j \<le> unat limit"
        using "1.prems" lt i1 nz
        by (intro "1.IH" [OF True, of "src ! unat i"]) simp_all
      then show ?thesis using True lt "1.prems" nz
        by (subst safe_u16_copy_loop.simps) (simp add: load_in store_in)
    qed
  next
    case False
    then show ?thesis using "1.prems"
      by (subst safe_u16_copy_loop.simps) simp
  qed
qed

lemma submit_keeps:
  assumes ok: "session_ok s"
  shows "keeps_ok s (ime_session_submit s)"
proof (cases "state s = IME_STATE_ACTIVE")
  case False
  then show ?thesis using ok by (simp add: ime_session_submit_def keeps_ok_def)
next
  case True
  show ?thesis
  proof (cases "caller_buffer s")
    case None
    then show ?thesis using True ok
      by (simp add: ime_session_submit_def keeps_ok_def) (simp add: session_ok_nat)
  next
    case (Some cb)
    from ok Some have n: "length (output s) = 256" "unat (max_output_length s) \<le> 256"
      "unat (max_output_length s) \<le> length cb"
      by (auto simp add: session_ok_nat caller_buffer_ok_def)
    show ?thesis
    proof (cases "max_output_length s = 0")
      case z: True
      then show ?thesis using True Some ok
        by (simp add: ime_session_submit_def safe_u16_copy_def keeps_ok_def)
           (auto simp add: session_ok_nat)
    next
      case nz: False
      have m1: "unat (max_output_length s - 1) = unat (max_output_length s) - 1"
        using nz by (rule unat_pred)
      have pos: "0 < unat (max_output_length s)" using nz by (simp add: unat_gt_0)
      have "\<exists>d' j. safe_u16_copy_loop cb (output s) 0 (max_output_length s - 1) = Inr (d', j) \<and>
          length d' = length cb \<and> unat j \<le> unat (max_output_length s - 1)"
        using n m1 pos by (intro safe_u16_copy_loop_ok) simp_all
      then obtain d' j where
        dj: "safe_u16_copy_loop cb (output s) 0 (max_output_length s - 1) = Inr (d', j)"
          "length d' = length cb" "unat j \<le> unat (max_output_length s - 1)"
        by blast
      have "unat j < length d'" using dj n m1 pos by simp
      then show ?thesis using True Some ok nz dj n
        by (simp add: ime_session_submit_def safe_u16_copy_def keeps_ok_def store_in)
           (simp add: session_ok_nat caller_buffer_ok_def)
    qed
  qed
qed

lemma pure_calls_keep:
  assumes ok: "session_ok s"
  shows "session_ok (ime_session_cursor_left s)" "session_ok (ime_session_cursor_right s)"
    "session_ok (ime_session_cursor_home s)" "session_ok (ime_session_cursor_end s)"
    "session_ok (ime_session_set_selection a b s)" "session_ok (ime_session_clear_selection s)"
    "session_ok (ime_session_select_all s)" "session_ok (ime_session_cycle d s)"
    "session_ok (ime_session_update_timing t s)" "session_ok (ime_session_cancel s)"
proof -
  from ok have n: "unat (text_cursor s) \<le> unat (output_length s)"
    "unat (output_length s) \<le> unat (max_output_length s)" "unat (max_output_length s) \<le> 256"
    by (auto simp add: session_ok_nat)
  show "session_ok (ime_session_cursor_left s)"
  proof (cases "text_cursor s = 0")
    case True
    then show ?thesis using ok
      by (simp add: ime_session_cursor_left_def Let_def) (simp add: session_ok_nat)
  next
    case False
    then have "unat (text_cursor s - 1) = unat (text_cursor s) - 1" by (rule unat_pred)
    then show ?thesis using ok n
      by (simp add: ime_session_cursor_left_def Let_def) (auto simp add: session_ok_nat)
  qed
  show "session_ok (ime_session_cursor_right s)"
  proof (cases "text_cursor s < output_length s")
    case True
    then have lt: "unat (text_cursor s) < unat (output_length s)" by (simp add: word_less_nat_alt)
    then have "unat (text_cursor s + 1) = unat (text_cursor s) + 1"
      using n by (intro unat_Suc_small [of _ "unat (output_length s)"]) simp_all
    then show ?thesis using ok n lt True
      by (simp add: ime_session_cursor_right_def Let_def) (auto simp add: session_ok_nat)
  next
    case False
    then show ?thesis using ok
      by (simp add: ime_session_cursor_right_def Let_def) (simp add: session_ok_nat)
  qed
  show "session_ok (ime_session_cursor_home s)" "session_ok (ime_session_cursor_end s)"
    "session_ok (ime_session_clear_selection s)" "session_ok (ime_session_cancel s)"
    using ok
    by (simp_all add: ime_session_cursor_home_def ime_session_cursor_end_def
        ime_session_clear_selection_def ime_session_cancel_def session_ok_nat)
  show "session_ok (ime_session_set_selection a b s)"
    using ok
    by (simp add: ime_session_set_selection_def Let_def split: prod.splits)
       (auto simp add: session_ok_nat word_less_nat_alt word_le_nat_alt)
  show "session_ok (ime_session_select_all s)"
    using ok by (simp add: ime_session_select_all_def) (simp add: session_ok_nat)
  show "session_ok (ime_session_cycle d s)"
    using ok by (simp add: ime_session_cycle_def Let_def) (simp add: session_ok_nat)
  show "session_ok (ime_session_update_timing t s)"
    using ok by (simp add: ime_session_update_timing_def ime_session_cycle_def Let_def)
      (auto simp add: session_ok_nat)
qed


lemma ime_call_keeps:
  assumes ok: "session_ok s"
  shows "keeps_ok s (ime_call_apply c s)"
proof (cases c)
  case (AddChar16 x)
  then show ?thesis using ok by (simp add: add_char16_keeps)
next
  case Backspace
  then show ?thesis using ok by (simp add: backspace_keeps)
next
  case DeleteSelection
  then show ?thesis using ok by (simp add: delete_selection_keeps)
next
  case Copy
  then show ?thesis using ok by (simp add: copy_keeps)
next
  case Cut
  then show ?thesis using ok by (simp add: cut_keeps)
next
  case Paste
  then show ?thesis using ok by (simp add: paste_keeps)
next
  case ConfirmChar
  then show ?thesis using ok by (simp add: confirm_char_keeps)
next
  case Submit
  then show ?thesis using ok by (simp add: submit_keeps)
next
  case CursorLeft
  then show ?thesis using pure_calls_keep(1) [OF ok]
    by (simp add: keeps_ok_def ime_session_cursor_left_def Let_def)
next
  case CursorRight
  then show ?thesis using pure_calls_keep(2) [OF ok]
    by (simp add: keeps_ok_def ime_session_cursor_right_def Let_def)
next
  case CursorHome
  then show ?thesis using pure_calls_keep(3) [OF ok]
    by (simp add: keeps_ok_def ime_session_cursor_home_def)
next
  case CursorEnd
  then show ?thesis using pure_calls_keep(4) [OF ok]
    by (simp add: keeps_ok_def ime_session_cursor_end_def)
next
  case (SetSelection a b)
  then show ?thesis using pure_calls_keep(5) [OF ok, of a b]
    by (simp add: keeps_ok_def ime_session_set_selection_def Let_def split: prod.splits)
next
  case ClearSelection
  then show ?thesis using pure_calls_keep(6) [OF ok]
    by (simp add: keeps_ok_def ime_session_clear_selection_def)
next
  case SelectAll
  then show ?thesis using pure_calls_keep(7) [OF ok]
    by (simp add: keeps_ok_def ime_session_select_all_def)
next
  case (Cycle d)
  then show ?thesis using pure_calls_keep(8) [OF ok, of d]
    by (simp add: keeps_ok_def ime_session_cycle_def Let_def)
next
  case (UpdateTiming t)
  then show ?thesis using pure_calls_keep(9) [OF ok, of t]
    by (simp add: keeps_ok_def ime_session_update_timing_def ime_session_cycle_def Let_def)
next
  case Cancel
  then show ?thesis using pure_calls_keep(10) [OF ok]
    by (simp add: keeps_ok_def ime_session_cancel_def)
qed

lemma ime_calls_keep: "session_ok s \<Longrightarrow> keeps_ok s (ime_calls cs s)"
proof (induction cs arbitrary: s)
  case Nil
  then show ?case by (simp add: keeps_ok_def)
next
  case (Cons c cs)
  have k: "keeps_ok s (ime_call_apply c s)" using Cons.prems by (rule ime_call_keeps)
  show ?case
  proof (cases "ime_call_apply c s")
    case (Inl f)
    then show ?thesis using k by (simp add: keeps_ok_def)
  next
    case (Inr s1)
    then have "session_ok s1" "max_output_length s1 = max_output_length s"
      using k by (simp_all add: keeps_ok_def)
    then show ?thesis using Cons.IH [of s1] Inr by (simp add: keeps_ok_max)
  qed
qed

lemma store_length: "store a i v = Inr a' \<Longrightarrow> length a' = length a"
  by (auto simp add: store_def split: if_splits)

lemma safe_u16_strlen_loop_le:
  "safe_u16_strlen_loop str max_len len = Inr n \<Longrightarrow> len \<le> max_len \<Longrightarrow> n \<le> max_len"
proof (induction str max_len len rule: safe_u16_strlen_loop.induct)
  case (1 str max_len len)
  show ?case
  proof (cases "len < max_len")
    case True
    then have s: "len + 1 \<le> max_len" by unat_arith
    from "1.prems"(1) True obtain c where c: "load str len = Inr c"
      "(if c \<noteq> 0 then safe_u16_strlen_loop str max_len (len + 1) else Inr len) = Inr n"
      by (subst (asm) safe_u16_strlen_loop.simps) (auto simp add: bindF_def split: sum.splits)
    show ?thesis
    proof (cases "c = 0")
      case z: True
      then show ?thesis using c "1.prems" by simp
    next
      case False
      then show ?thesis using c "1.IH" [OF True False] s by simp
    qed
  next
    case False
    then show ?thesis using "1.prems"
      by (subst (asm) safe_u16_strlen_loop.simps) simp
  qed
qed

lemma safe_u16_copy_loop_length:
  "safe_u16_copy_loop dst src i limit = Inr (d', j) \<Longrightarrow> length d' = length dst"
proof (induction dst src i limit rule: safe_u16_copy_loop.induct)
  case (1 dst src i limit)
  show ?case
  proof (cases "i < limit")
    case True
    from "1.prems" True obtain c where c: "load src i = Inr c"
      "(if c \<noteq> 0 then bindF (store dst i c) (\<lambda>dst'. safe_u16_copy_loop dst' src (i + 1) limit)
        else Inr (dst, i)) = Inr (d', j)"
      by (subst (asm) safe_u16_copy_loop.simps) (auto simp add: bindF_def split: sum.splits)
    show ?thesis
    proof (cases "c = 0")
      case z: True
      then show ?thesis using c by simp
    next
      case False
      with c(2) obtain dst' where d: "store dst i c = Inr dst'"
        "safe_u16_copy_loop dst' src (i + 1) limit = Inr (d', j)"
        by (auto simp add: bindF_def split: sum.splits)
      from "1.IH" [OF True False d(2)] store_length [OF d(1)] show ?thesis by simp
    qed
  next
    case False
    then show ?thesis using "1.prems"
      by (subst (asm) safe_u16_copy_loop.simps) simp
  qed
qed

lemma charset_length_loop_le:
  "len \<le> length cs \<Longrightarrow> charset_length_loop cs len \<le> length cs"
proof (induction cs len rule: charset_length_loop.induct)
  case (1 cs len)
  show ?case
  proof (cases "len < length cs \<and> len < IME_MAX_CHARSET_SIZE")
    case True
    then show ?thesis using "1.IH" by (subst charset_length_loop.simps) simp
  next
    case False
    then show ?thesis using "1.prems" by (subst charset_length_loop.simps) auto
  qed
qed

lemma charset_for_panel_ok:
  "charset_for_panel ptype = (cs, cl) \<Longrightarrow> charset_ok (Some cs) cl"
proof -
  assume a: "charset_for_panel ptype = (cs, cl)"
  then have "cl = of_nat (charset_length_loop cs 0)"
    by (auto simp add: charset_for_panel_def Let_def)
  moreover have "unat (of_nat (charset_length_loop cs 0) :: u32) \<le> charset_length_loop cs 0"
    by (simp add: unat_of_nat)
  moreover have "charset_length_loop cs 0 \<le> length cs" by (rule charset_length_loop_le) simp
  ultimately show ?thesis by (simp add: charset_ok_def)
qed

lemma init_max_length:
  "(if ml = 0 \<or> IME_MAX_OUTPUT_LENGTH < ml then CLAMP ml 1 IME_MAX_OUTPUT_LENGTH else ml)
     \<le> IME_MAX_OUTPUT_LENGTH \<and>
   (if ml = 0 \<or> IME_MAX_OUTPUT_LENGTH < ml then CLAMP ml 1 IME_MAX_OUTPUT_LENGTH else ml) \<noteq> 0"
  by (auto simp add: CLAMP_def IME_MAX_OUTPUT_LENGTH_def word_less_nat_alt word_le_nat_alt)

text \<open>Every session that \<open>ime_session_init\<close> returns is active, well formed and satisfies
  the invariant, when the caller's array has room for \<open>max_output_length\<close> elements.\<close>

lemma init_session_ok:
  assumes i: "ime_session_init ptype ml cbuf prefill old = Inr (r, s)"
    and cb: "caller_buffer_ok cbuf (max_output_length s)"
  shows "session_wf s \<and> session_inv s \<and> state s = IME_STATE_ACTIVE \<and> r = IME_OK \<and>
         max_output_length s \<noteq> 0"
proof -
  define m where "m = (if ml = 0 \<or> IME_MAX_OUTPUT_LENGTH < ml
      then CLAMP ml 1 IME_MAX_OUTPUT_LENGTH else ml)"
  have m: "m \<le> IME_MAX_OUTPUT_LENGTH" "m \<noteq> 0" using init_max_length [of ml] by (simp_all add: m_def)
  obtain cs cl where c: "charset_for_panel ptype = (cs, cl)" by (cases "charset_for_panel ptype")
  have co: "charset_ok (Some cs) cl" using c by (rule charset_for_panel_ok)
  define s1 where "s1 = g_session_zero
                 \<lparr>state := IME_STATE_ACTIVE, panel_type := ptype, caller_buffer := cbuf,
                  max_output_length := m, charset := Some cs, charset_length := cl,
                  cursor_index := 0,
                  cycle_config := \<lparr>initial_delay_ms = 400, repeat_interval_ms = 150,
                                    accel_threshold_ms = 1500, accel_interval_ms = 50\<rparr>\<rparr>"
  have e: "ime_session_init ptype ml cbuf prefill old =
      (case prefill of
           None \<Rightarrow> Inr (IME_OK, s1)
         | Some pf \<Rightarrow>
             bindF (safe_u16_strlen prefill m) (\<lambda>prefill_len.
             bindF (safe_u16_copy (Some (output s1)) prefill m) (\<lambda>out.
               Inr (IME_OK,
                    s1\<lparr>output := (case out of Some a \<Rightarrow> a | None \<Rightarrow> output s1),
                       output_length := prefill_len, text_cursor := prefill_len\<rparr>))))"
    using c by (cases prefill)
      (simp_all add: ime_session_init_def memset_zero_const m_def [symmetric] s1_def Let_def
        cong: option.case_cong)
  show ?thesis
  proof (cases prefill)
    case None
    then have "s = s1" "r = IME_OK" using i e by simp_all
    then show ?thesis using m co cb
      by (simp add: s1_def session_wf_def session_inv_def g_session_zero_def)
  next
    case (Some pf)
    from i e Some obtain n out where
      n: "safe_u16_strlen_loop pf m 0 = Inr n"
      and o: "safe_u16_copy (Some (output s1)) (Some pf) m = Inr out"
      and s: "s = s1\<lparr>output := (case out of Some a \<Rightarrow> a | None \<Rightarrow> output s1),
                       output_length := n, text_cursor := n\<rparr>" "r = IME_OK"
      by (auto simp add: bindF_def safe_u16_strlen_def split: sum.splits)
    have nm: "n \<le> m" using safe_u16_strlen_loop_le [OF n] by simp
    from o m obtain d' j d'' where
      "safe_u16_copy_loop (output s1) pf 0 (m - 1) = Inr (d', j)" "store d' j 0 = Inr d''"
      "out = Some d''"
      by (auto simp add: safe_u16_copy_def bindF_def split: sum.splits prod.splits)
    then have "length d'' = 256" "out = Some d''"
      using safe_u16_copy_loop_length [of "output s1" pf 0 "m - 1" d' j] store_length [of d' j 0 d'']
      by (simp_all add: s1_def g_session_zero_def)
    then show ?thesis using s nm m co cb
      by (simp add: s1_def session_wf_def session_inv_def g_session_zero_def)
  qed
qed

text \<open>
  Claim C1 as stated fails: an empty selection range may lie beyond the text. After "abc",
  \<open>ime_session_set_selection(3, 3)\<close> and a backspace, the text has 2 characters and
  \<open>sel_start = sel_end = 3\<close>.
\<close>

theorem empty_range_beyond_length:
  "\<not> isl (session_after 0 10 None None
      [AddChar16 97, AddChar16 98, AddChar16 99, SetSelection 3 3, Backspace]) \<and>
   state (projr (session_after 0 10 None None
      [AddChar16 97, AddChar16 98, AddChar16 99, SetSelection 3 3, Backspace])) = IME_STATE_ACTIVE \<and>
   output_length (projr (session_after 0 10 None None
      [AddChar16 97, AddChar16 98, AddChar16 99, SetSelection 3 3, Backspace])) = 2 \<and>
   sel_end (projr (session_after 0 10 None None
      [AddChar16 97, AddChar16 98, AddChar16 99, SetSelection 3 3, Backspace])) = 3 \<and>
   \<not> sel_end (projr (session_after 0 10 None None
      [AddChar16 97, AddChar16 98, AddChar16 99, SetSelection 3 3, Backspace]))
     \<le> output_length (projr (session_after 0 10 None None
      [AddChar16 97, AddChar16 98, AddChar16 99, SetSelection 3 3, Backspace]))"
  by code_simp

text \<open>
  Claim C1, amended. From a well-formed session that satisfies \<open>session_inv\<close>, every
  sequence of calls that completes leaves a well-formed session that satisfies it, and so
  does every prefix of the sequence: \<open>text_cursor \<le> output_length \<le> max_output_length\<close>,
  \<open>sel_start \<le> sel_end\<close>, and \<open>sel_end \<le> output_length\<close> when the range is not empty.
  A sequence completes unless \<open>max_output_length\<close> is 256 and a call stores the
  terminator at index 256; with a smaller maximal length every sequence completes.
\<close>

theorem calls_keep_session_invariant:
  assumes "session_wf s" and "session_inv s"
  shows "case ime_calls cs s of
           Inr s' \<Rightarrow> session_wf s' \<and> session_inv s' \<and> max_output_length s' = max_output_length s
         | Inl f \<Rightarrow> f = StoreOutOfBounds 256 \<and> max_output_length s = 256"
  using ime_calls_keep [of s cs] assms
  by (simp add: keeps_ok_def session_ok_def split: sum.splits)

lemma abc_selected_ok: "session_wf abc_selected" "session_inv abc_selected"
  by (code_simp, code_simp)

theorem calls_keep_session_invariant_witness:
  "session_wf abc_selected \<and> session_inv abc_selected \<and>
   \<not> isl (ime_calls [Backspace, AddChar16 120, SelectAll, CursorHome, SetSelection 0 1] abc_selected) \<and>
   session_inv (projr (ime_calls [Backspace, AddChar16 120, SelectAll, CursorHome, SetSelection 0 1]
      abc_selected)) \<and>
   sel_start (projr (ime_calls [Backspace, AddChar16 120, SelectAll, CursorHome, SetSelection 0 1]
      abc_selected)) \<noteq>
   sel_end (projr (ime_calls [Backspace, AddChar16 120, SelectAll, CursorHome, SetSelection 0 1]
      abc_selected))"
proof -
  have r: "\<not> isl (ime_calls [Backspace, AddChar16 120, SelectAll, CursorHome, SetSelection 0 1] abc_selected)"
    "sel_start (projr (ime_calls [Backspace, AddChar16 120, SelectAll, CursorHome, SetSelection 0 1]
      abc_selected)) \<noteq>
   sel_end (projr (ime_calls [Backspace, AddChar16 120, SelectAll, CursorHome, SetSelection 0 1]
      abc_selected))"
    by (code_simp, code_simp)
  from calls_keep_session_invariant [OF abc_selected_ok,
      of "[Backspace, AddChar16 120, SelectAll, CursorHome, SetSelection 0 1]"] r abc_selected_ok
  show ?thesis
    by (cases "ime_calls [Backspace, AddChar16 120, SelectAll, CursorHome, SetSelection 0 1] abc_selected")
      simp_all
qed

section \<open>The terminator at the end of a full buffer\<close>

lemma init_255:
  "ime_session_init 0 256 None (Some (replicate 255 65 @ [0])) g_session_zero =
     Inr (IME_OK, prefilled 255)"
  by code_simp


lemma init_256:
  "ime_session_init 0 256 None (Some (replicate 256 65 @ [0])) g_session_zero =
     Inr (IME_OK, prefilled 256)"
  by code_simp

lemma session_after_255:
  "session_after 0 256 None (Some (replicate 255 65 @ [0])) cs = ime_calls cs (prefilled 255)"
  by (simp add: session_after_def init_255 drop_result_def)

lemma session_after_256:
  "session_after 0 256 None (Some (replicate 256 65 @ [0])) cs = ime_calls cs (prefilled 256)"
  by (simp add: session_after_def init_256 drop_result_def)

text \<open>
  Claim C10, evaluated where it fails. With the maximal length 256 and 255 characters in
  the buffer, \<open>ime_session_add_char16\<close>, \<open>ime_session_confirm_char\<close> and
  \<open>ime_session_paste\<close> each store the terminator at index 256 of the 256-element array.
\<close>

theorem terminator_store_out_of_bounds:
  "session_after 0 256 None (Some (replicate 255 65 @ [0])) [] = Inr (prefilled 255) \<and>
   state (prefilled 255) = IME_STATE_ACTIVE \<and> output_length (prefilled 255) = 255 \<and>
   max_output_length (prefilled 255) = 256 \<and>
   session_after 0 256 None (Some (replicate 255 65 @ [0])) [AddChar16 97] =
     Inl (StoreOutOfBounds 256) \<and>
   session_after 0 256 None (Some (replicate 255 65 @ [0])) [ConfirmChar] =
     Inl (StoreOutOfBounds 256) \<and>
   session_after 0 256 None (Some (replicate 255 65 @ [0]))
     [SetSelection 0 1, Copy, SetSelection 0 0, Paste] = Inl (StoreOutOfBounds 256)"
proof -
  have "ime_calls [AddChar16 97] (prefilled 255) = Inl (StoreOutOfBounds 256)"
    "ime_calls [ConfirmChar] (prefilled 255) = Inl (StoreOutOfBounds 256)"
    "ime_calls [SetSelection 0 1, Copy, SetSelection 0 0, Paste] (prefilled 255) =
       Inl (StoreOutOfBounds 256)"
    "state (prefilled 255) = IME_STATE_ACTIVE \<and> output_length (prefilled 255) = 255 \<and>
       max_output_length (prefilled 255) = 256"
    by (code_simp, code_simp, code_simp, code_simp)
  then show ?thesis unfolding session_after_255 by simp
qed

section \<open>Submit\<close>

text \<open>
  Claim C2, evaluated where it fails. With the maximal length 3 and the text "abc",
  \<open>ime_session_submit\<close> passes 3 to \<open>safe_u16_copy\<close> as the size of the destination:
  the caller's array receives "ab" and the terminator, and the state becomes confirming.
\<close>

theorem submit_drops_last_char:
  "\<not> isl (session_after 0 3 (Some [7, 7, 7, 7]) None [AddChar16 97, AddChar16 98, AddChar16 99]) \<and>
   state (projr (session_after 0 3 (Some [7, 7, 7, 7]) None
      [AddChar16 97, AddChar16 98, AddChar16 99])) = IME_STATE_ACTIVE \<and>
   output_length (projr (session_after 0 3 (Some [7, 7, 7, 7]) None
      [AddChar16 97, AddChar16 98, AddChar16 99])) = 3 \<and>
   max_output_length (projr (session_after 0 3 (Some [7, 7, 7, 7]) None
      [AddChar16 97, AddChar16 98, AddChar16 99])) = 3 \<and>
   take 3 (output (projr (session_after 0 3 (Some [7, 7, 7, 7]) None
      [AddChar16 97, AddChar16 98, AddChar16 99]))) = [97, 98, 99] \<and>
   \<not> isl (session_after 0 3 (Some [7, 7, 7, 7]) None
      [AddChar16 97, AddChar16 98, AddChar16 99, Submit]) \<and>
   state (projr (session_after 0 3 (Some [7, 7, 7, 7]) None
      [AddChar16 97, AddChar16 98, AddChar16 99, Submit])) = IME_STATE_CONFIRMING \<and>
   caller_buffer (projr (session_after 0 3 (Some [7, 7, 7, 7]) None
      [AddChar16 97, AddChar16 98, AddChar16 99, Submit])) = Some [97, 98, 0, 7]"
  by code_simp

lemma unat_Suc_less: "(i::u32) < j \<Longrightarrow> unat (i + 1) = unat i + 1"
  by unat_arith

lemma safe_u16_copy_loop_copies:
  assumes "unat limit < length dst" and "unat limit \<le> length src"
    and "unat i \<le> n" and "n \<le> unat limit"
    and "\<forall>j. unat i \<le> j \<and> j < n \<longrightarrow> src ! j \<noteq> 0"
    and "n < unat limit \<longrightarrow> src ! n = 0"
  shows "\<exists>d'. safe_u16_copy_loop dst src i limit = Inr (d', of_nat n) \<and>
           length d' = length dst \<and>
           (\<forall>j < length dst. d' ! j = (if unat i \<le> j \<and> j < n then src ! j else dst ! j))"
  using assms
proof (induction dst src i limit rule: safe_u16_copy_loop.induct)
  case (1 dst src i limit)
  show ?case
  proof (cases "i < limit")
    case True
    then have lt: "unat i < unat limit" by (simp add: word_less_nat_alt)
    have i1: "unat (i + 1) = unat i + 1" using True by (rule unat_Suc_less)
    show ?thesis
    proof (cases "unat i = n")
      case e: True
      then have "src ! unat i = 0" using "1.prems" lt by simp
      moreover have "of_nat n = i" using e by auto
      ultimately show ?thesis using True lt "1.prems" e
        by (subst safe_u16_copy_loop.simps) (auto simp add: load_in)
    next
      case False
      then have ilt: "unat i < n" using "1.prems" by simp
      then have nz: "src ! unat i \<noteq> 0" using "1.prems" by simp
      let ?d = "dst[unat i := src ! unat i]"
      have "\<exists>d'. safe_u16_copy_loop ?d src (i + 1) limit = Inr (d', of_nat n) \<and>
           length d' = length ?d \<and>
           (\<forall>j < length ?d. d' ! j = (if unat (i + 1) \<le> j \<and> j < n then src ! j else ?d ! j))"
        using "1.prems" ilt i1 nz
        by (intro "1.IH" [OF True nz]) simp_all
      then obtain d' where d': "safe_u16_copy_loop ?d src (i + 1) limit = Inr (d', of_nat n)"
        "length d' = length dst"
        "\<forall>j < length dst. d' ! j = (if unat i + 1 \<le> j \<and> j < n then src ! j else ?d ! j)"
        using i1 by auto
      have "d' ! j = (if unat i \<le> j \<and> j < n then src ! j else dst ! j)"
        if "j < length dst" for j
      proof (cases "j = unat i")
        case True
        then show ?thesis using d'(3) ilt that by simp
      next
        case False
        then show ?thesis using d'(3) ilt that by (auto simp add: nth_list_update)
      qed
      then have "\<forall>j < length dst. d' ! j = (if unat i \<le> j \<and> j < n then src ! j else dst ! j)"
        by blast
      moreover have "safe_u16_copy_loop dst src i limit = Inr (d', of_nat n)"
        using True lt "1.prems" nz d'(1)
        by (subst safe_u16_copy_loop.simps) (simp add: load_in store_in)
      ultimately show ?thesis using d'(2) by blast
    qed
  next
    case False
    then have "unat limit \<le> unat i" by (simp add: word_less_nat_alt)
    then have ui: "unat i = n" using "1.prems" by simp
    then have "of_nat n = i" by auto
    then show ?thesis using False ui
      by (subst safe_u16_copy_loop.simps) auto
  qed
qed

text \<open>
  When the buffer is not full, holds no zero character and ends with its terminator,
  submit copies the whole text and a terminator into the caller's array.
\<close>

lemma submit_copies_unless_full:
  assumes ok: "session_ok s" and a: "state s = IME_STATE_ACTIVE"
    and cb: "caller_buffer s = Some cb"
    and room: "output_length s < max_output_length s"
    and nz: "\<forall>j < unat (output_length s). output s ! j \<noteq> 0"
    and z: "output s ! unat (output_length s) = 0"
  shows "\<exists>cb'. ime_session_submit s =
             Inr (s\<lparr>caller_buffer := Some cb', state := IME_STATE_CONFIRMING\<rparr>) \<and>
           length cb' = length cb \<and>
           take (unat (output_length s)) cb' = take (unat (output_length s)) (output s) \<and>
           cb' ! unat (output_length s) = 0"
proof -
  define L where "L = unat (output_length s)"
  from ok cb have n: "length (output s) = 256" "unat (max_output_length s) \<le> 256"
    "unat (max_output_length s) \<le> length cb"
    by (auto simp add: session_ok_nat caller_buffer_ok_def)
  have lt: "L < unat (max_output_length s)" using room by (simp add: word_less_nat_alt L_def)
  then have m0: "max_output_length s \<noteq> 0" by auto
  have m1: "unat (max_output_length s - 1) = unat (max_output_length s) - 1"
    using m0 by (rule unat_pred)
  have "\<exists>d'. safe_u16_copy_loop cb (output s) 0 (max_output_length s - 1) = Inr (d', of_nat L) \<and>
           length d' = length cb \<and>
           (\<forall>j < length cb. d' ! j = (if unat (0::u32) \<le> j \<and> j < L then output s ! j else cb ! j))"
    using n m1 lt nz z
    by (intro safe_u16_copy_loop_copies) (simp_all add: L_def)
  then obtain d' where d': "safe_u16_copy_loop cb (output s) 0 (max_output_length s - 1) = Inr (d', of_nat L)"
    "length d' = length cb" "\<forall>j < length cb. d' ! j = (if j < L then output s ! j else cb ! j)"
    by auto
  have oL: "of_nat L = output_length s" by (simp add: L_def)
  have Lc: "L < length cb" using lt n by simp
  have e: "ime_session_submit s =
      Inr (s\<lparr>caller_buffer := Some (d'[L := 0]), state := IME_STATE_CONFIRMING\<rparr>)"
    using a cb m0 d'(1,2) Lc
    by (simp add: ime_session_submit_def safe_u16_copy_def oL store_in L_def [symmetric])
  have t: "take L (d'[L := 0]) = take L (output s)"
  proof (rule nth_equalityI)
    show "length (take L (d'[L := 0])) = length (take L (output s))"
      using d'(2) Lc n lt by simp
    fix j assume "j < length (take L (d'[L := 0]))"
    then have j: "j < L" by simp
    then show "take L (d'[L := 0]) ! j = take L (output s) ! j"
      using d'(3) Lc by simp
  qed
  have "d'[L := 0] ! L = 0" using d'(2) Lc by simp
  then show ?thesis using e t d'(2) by (auto simp add: L_def)
qed

section \<open>Cut and paste\<close>

lemma cut_paste_elements:
  assumes n: "length a = 256" "S < E" "E \<le> L" "L < 256"
    and o: "out2 = (moved_left a S (E - S) L)[L - (E - S) := 0]"
  shows "take L ((take S (moved_right out2 S (E - S) (L - (E - S))) @
                  take (E - S) (take (E - S) (drop S a) @ drop (E - S) cb) @
                  drop E (moved_right out2 S (E - S) (L - (E - S))))[L := 0]) =
         take L a"
proof (rule nth_equalityI)
  have len2: "length out2 = 256" using n by (simp add: o)
  show "length (take L ((take S (moved_right out2 S (E - S) (L - (E - S))) @
                  take (E - S) (take (E - S) (drop S a) @ drop (E - S) cb) @
                  drop E (moved_right out2 S (E - S) (L - (E - S))))[L := 0])) =
        length (take L a)"
    using n len2 by simp
  fix j
  assume "j < length (take L ((take S (moved_right out2 S (E - S) (L - (E - S))) @
                  take (E - S) (take (E - S) (drop S a) @ drop (E - S) cb) @
                  drop E (moved_right out2 S (E - S) (L - (E - S))))[L := 0]))"
  then have j: "j < L" using n len2 by simp
  define D where "D = E - S"
  have D: "E = S + D" "0 < D" using n by (simp_all add: D_def)
  have m: "length (moved_right out2 S D (L - D)) = 256" using len2 by simp
  have c0: "take D (take D (drop S a) @ drop D cb) = take D (drop S a)"
    using n D by simp
  have t1: "length (take S (moved_right out2 S D (L - D))) = S"
    using n D m by simp
  have t2: "length (take D (drop S a)) = D"
    using n D by simp
  have app: "(xs @ ys @ zs) ! j =
      (if j < length xs then xs ! j
       else if j < length xs + length ys then ys ! (j - length xs)
       else zs ! (j - length xs - length ys))" for xs ys zs :: "u16 list"
    by (auto simp add: nth_append)
  have sp: "(take S (moved_right out2 S D (L - D)) @ take D (drop S a) @
             drop (S + D) (moved_right out2 S D (L - D))) ! j =
      (if j < S then take S (moved_right out2 S D (L - D)) ! j
       else if j < S + D then take D (drop S a) ! (j - S)
       else drop (S + D) (moved_right out2 S D (L - D)) ! (j - S - D))"
    unfolding app t1 t2 ..
  consider "j < S" | "S \<le> j" "j < S + D" | "S + D \<le> j" by linarith
  then have "(take S (moved_right out2 S D (L - D)) @
                  take D (take D (drop S a) @ drop D cb) @
                  drop (S + D) (moved_right out2 S D (L - D))) ! j = a ! j"
    unfolding c0 sp
  proof cases
    case 1
    have "moved_right out2 S D (L - D) ! j = out2 ! j"
      using 1 len2 n j by (simp add: nth_moved_right)
    also have "\<dots> = moved_left a S D L ! j"
      using 1 n D j by (simp add: o D_def [symmetric])
    also have "\<dots> = a ! j" using 1 n j by (simp add: nth_moved_left)
    finally show "(if j < S then take S (moved_right out2 S D (L - D)) ! j
       else if j < S + D then take D (drop S a) ! (j - S)
       else drop (S + D) (moved_right out2 S D (L - D)) ! (j - S - D)) = a ! j"
      using 1 by simp
  next
    case 2
    have "take D (drop S a) ! (j - S) = a ! j"
      using 2 n by simp
    then show "(if j < S then take S (moved_right out2 S D (L - D)) ! j
       else if j < S + D then take D (drop S a) ! (j - S)
       else drop (S + D) (moved_right out2 S D (L - D)) ! (j - S - D)) = a ! j"
      using 2 by simp
  next
    case 3
    have "drop (S + D) (moved_right out2 S D (L - D)) ! (j - S - D) =
        moved_right out2 S D (L - D) ! j"
      using 3 m n j D by (simp add: nth_drop)
    also have "\<dots> = out2 ! (j - D)"
      using 3 len2 n j D by (simp add: nth_moved_right)
    also have "\<dots> = moved_left a S D L ! (j - D)"
      using 3 n D j by (simp add: o D_def [symmetric])
    also have "\<dots> = a ! j" using 3 n j D by (auto simp add: nth_moved_left)
    finally show "(if j < S then take S (moved_right out2 S D (L - D)) ! j
       else if j < S + D then take D (drop S a) ! (j - S)
       else drop (S + D) (moved_right out2 S D (L - D)) ! (j - S - D)) = a ! j"
      using 3 by simp
  qed
  then have core: "(take S (moved_right out2 S (E - S) (L - (E - S))) @
                  take (E - S) (take (E - S) (drop S a) @ drop (E - S) cb) @
                  drop E (moved_right out2 S (E - S) (L - (E - S)))) ! j = a ! j"
    unfolding D_def using n by simp
  have "take L ((take S (moved_right out2 S (E - S) (L - (E - S))) @
                  take (E - S) (take (E - S) (drop S a) @ drop (E - S) cb) @
                  drop E (moved_right out2 S (E - S) (L - (E - S))))[L := 0]) ! j =
        (take S (moved_right out2 S (E - S) (L - (E - S))) @
                  take (E - S) (take (E - S) (drop S a) @ drop (E - S) cb) @
                  drop E (moved_right out2 S (E - S) (L - (E - S))))[L := 0] ! j"
    using j by (rule nth_take)
  also have "\<dots> = (take S (moved_right out2 S (E - S) (L - (E - S))) @
                  take (E - S) (take (E - S) (drop S a) @ drop (E - S) cb) @
                  drop E (moved_right out2 S (E - S) (L - (E - S)))) ! j"
    using j by (intro nth_list_update_neq) simp
  also note core
  also have "a ! j = take L a ! j" using j by (rule nth_take [symmetric])
  finally show "take L ((take S (moved_right out2 S (E - S) (L - (E - S))) @
                  take (E - S) (take (E - S) (drop S a) @ drop (E - S) cb) @
                  drop E (moved_right out2 S (E - S) (L - (E - S))))[L := 0]) ! j =
        take L a ! j" .
qed

lemma cut_paste_all:
  assumes ok: "session_ok s" and a: "state s = IME_STATE_ACTIVE"
    and sel: "selected_all s" "output_length s \<noteq> 0"
    and room: "unat (output_length s) < 256"
  shows "\<exists>s2. bindF (ime_session_cut s) ime_session_paste = Inr s2 \<and>
           output_length s2 = output_length s \<and>
           take (unat (output_length s)) (output s2) = take (unat (output_length s)) (output s)"
proof -
  define L where "L = unat (output_length s)"
  from ok have n: "length (output s) = 256" "length (clipboard s) = 256"
    "L \<le> unat (max_output_length s)" "unat (max_output_length s) \<le> 256"
    by (auto simp add: session_ok_nat L_def)
  define s1 where "s1 = s\<lparr>clipboard := take L (output s) @ drop L (clipboard s),
      clipboard_length := output_length s\<rparr>"
  have c: "ime_session_copy s = Inr s1"
    using copy_effect [OF ok a] sel by (simp add: s1_def L_def)
  have ok1: "session_ok s1"
    using copy_keeps [OF ok] c by (simp add: keeps_ok_def)
  define s1' where "s1' = s1\<lparr>output_length := 0, text_cursor := 0, output := (output s1)[0 := 0],
      selected_all := False, sel_start := 0, sel_end := 0\<rparr>"
  have cl: "clear_all_selected s1 = Inr s1'"
    using clear_all_selected_effect [OF ok1] by (simp add: s1'_def)
  have ok1': "session_ok s1'"
    using clear_all_selected_keeps [OF ok1] cl by (simp add: keeps_ok_def)
  have pos: "0 < output_length s" using sel by (simp add: word_greater_zero_iff)
  have cut: "ime_session_cut s = Inr s1'"
    using a c cl sel pos by (simp add: ime_session_cut_def s1_def)
  have k: "L = min (unat (clipboard_length s1')) (unat (max_output_length s1') - unat (output_length s1'))"
    using n by (simp add: s1'_def s1_def L_def)
  have L0: "L \<noteq> 0" using sel by (simp add: L_def unat_eq_zero)
  have p: "ime_session_paste s1' =
      Inr (s1'\<lparr>output :=
                    (take 0 (moved_right (output s1') 0 L 0) @ take L (clipboard s1') @
                     drop (0 + L) (moved_right (output s1') 0 L 0))[0 + L := 0],
                  output_length := of_nat (0 + L), text_cursor := of_nat (0 + L)\<rparr>)"
    using paste_plain [OF ok1' _ _ _ _ k, of 0 0] a sel L0 room
    by (simp add: s1'_def s1_def L_def)
  have "take L ((take L (clipboard s1') @ drop L (moved_right (output s1') 0 L 0))[L := 0]) =
      take L (output s)"
    using n by (simp add: s1'_def s1_def)
  then show ?thesis
    using cut p by (simp add: L_def [symmetric]) (simp add: L_def)
qed


lemma cut_paste_range:
  assumes ok: "session_ok s" and a: "state s = IME_STATE_ACTIVE"
    and sel: "\<not> selected_all s" "sel_start s \<noteq> sel_end s"
    and room: "unat (output_length s) < 256"
  shows "\<exists>s2. bindF (ime_session_cut s) ime_session_paste = Inr s2 \<and>
           output_length s2 = output_length s \<and>
           take (unat (output_length s)) (output s2) = take (unat (output_length s)) (output s)"
proof -
  define L where "L = unat (output_length s)"
  define S where "S = unat (sel_start s)"
  define E where "E = unat (sel_end s)"
  from ok sel have n: "length (output s) = 256" "length (clipboard s) = 256"
    "L \<le> unat (max_output_length s)" "unat (max_output_length s) \<le> 256" "S \<le> E" "E \<le> L"
    by (auto simp add: session_ok_nat L_def S_def E_def)
  have Lr: "L < 256" using room by (simp add: L_def)
  have lt: "S < E"
    using n(5) sel(2) unfolding S_def E_def by (metis le_neq_implies_less word_unat_eq_iff)
  have w: "sel_start s \<le> sel_end s" using n by (simp add: word_le_nat_alt S_def E_def)
  have d: "unat (sel_end s - sel_start s) = E - S"
    using unat_sub_le [OF w] by (simp add: S_def E_def)
  have dl: "sel_end s - sel_start s \<le> output_length s"
    using d n by (simp add: word_le_nat_alt L_def)
  have l: "unat (output_length s - (sel_end s - sel_start s)) = L - (E - S)"
    using unat_sub_le [OF dl] d by (simp add: L_def)
  define cb1 where "cb1 = take (E - S) (drop S (output s)) @ drop (E - S) (clipboard s)"
  define s1 where "s1 = s\<lparr>clipboard := cb1, clipboard_length := sel_end s - sel_start s\<rparr>"
  have c: "ime_session_copy s = Inr s1"
    using copy_effect [OF ok a] sel by (simp add: s1_def cb1_def S_def E_def)
  have ok1: "session_ok s1"
    using copy_keeps [OF ok] c by (simp add: keeps_ok_def)
  define out2 where "out2 = (moved_left (output s) S (E - S) L)[L - (E - S) := 0]"
  define s2 where "s2 = s1\<lparr>output := out2,
           output_length := output_length s - (sel_end s - sel_start s),
           text_cursor := sel_start s, sel_start := 0, sel_end := 0, selected_all := False\<rparr>"
  have f1: "state s1 = IME_STATE_ACTIVE" "sel_start s1 \<noteq> sel_end s1" "\<not> selected_all s1"
    "output s1 = output s" "sel_start s1 = sel_start s" "sel_end s1 = sel_end s"
    "output_length s1 = output_length s" "0 < clipboard_length s1"
    using a sel d lt by (simp_all add: s1_def word_less_nat_alt)
  have de: "ime_session_delete_selection s1 = Inr s2"
    unfolding delete_selection_effect [OF ok1 f1(1) f1(2)] f1 s2_def out2_def S_def E_def L_def ..
  have ok2: "session_ok s2"
    using delete_selection_keeps [OF ok1] de by (simp add: keeps_ok_def)
  have cut: "ime_session_cut s = Inr s2"
    using a c de f1 by (simp add: ime_session_cut_def)
  have f2: "state s2 = IME_STATE_ACTIVE" "\<not> selected_all s2" "sel_start s2 = sel_end s2"
    "clipboard_length s2 \<noteq> 0" "output s2 = out2" "clipboard s2 = cb1"
    using a sel(2) by (auto simp add: s2_def s1_def)
  have k: "E - S = min (unat (clipboard_length s2)) (unat (max_output_length s2) - unat (output_length s2))"
    using n d l by (simp add: s2_def s1_def)
  have p0: "S = unat (text_cursor s2)" "L - (E - S) = unat (output_length s2)"
    using l by (simp_all add: s2_def S_def)
  have lk: "L - (E - S) + (E - S) = L" "S + (E - S) = E" using n lt by simp_all
  have k0: "E - S \<noteq> 0" using lt by simp
  have L256: "L \<noteq> 256" using Lr by simp
  note pp = paste_plain [OF ok2 f2(1) f2(2) f2(3) f2(4) k p0]
  define out3 where "out3 = (take S (moved_right out2 S (E - S) (L - (E - S))) @
                     take (E - S) cb1 @
                     drop E (moved_right out2 S (E - S) (L - (E - S))))[L := 0]"
  have p: "ime_session_paste s2 =
      Inr (s2\<lparr>output := out3, output_length := of_nat L, text_cursor := of_nat E\<rparr>)"
    unfolding pp lk f2 out3_def using k0 L256 by simp
  have eq: "take L out3 = take L (output s)"
    unfolding out3_def cb1_def using n(1) lt n(6) Lr out2_def by (rule cut_paste_elements)
  have ol: "of_nat L = output_length s" by (simp add: L_def)
  have "bindF (ime_session_cut s) ime_session_paste =
      Inr (s2\<lparr>output := out3, output_length := of_nat L, text_cursor := of_nat E\<rparr>)"
    unfolding cut using p by simp
  moreover have "output_length (s2\<lparr>output := out3, output_length := of_nat L, text_cursor := of_nat E\<rparr>) =
      output_length s"
    using ol by simp
  moreover have "take (unat (output_length s))
      (output (s2\<lparr>output := out3, output_length := of_nat L, text_cursor := of_nat E\<rparr>)) =
      take (unat (output_length s)) (output s)"
    using eq by (simp add: L_def)
  ultimately show ?thesis by blast
qed

text \<open>
  With fewer than 256 characters in the buffer, a cut of a non-empty selection followed at
  once by a paste completes and gives back the length and the characters of the text.
\<close>

lemma cut_paste_restores:
  assumes "session_ok s" and "state s = IME_STATE_ACTIVE"
    and "selected_all s \<and> output_length s \<noteq> 0 \<or> \<not> selected_all s \<and> sel_start s \<noteq> sel_end s"
    and "unat (output_length s) < 256"
  shows "\<exists>s2. bindF (ime_session_cut s) ime_session_paste = Inr s2 \<and>
           output_length s2 = output_length s \<and>
           take (unat (output_length s)) (output s2) = take (unat (output_length s)) (output s)"
  using assms cut_paste_all [of s] cut_paste_range [of s] by blast

text \<open>
  Claim C5, evaluated where it fails. With 256 characters in the buffer, a cut of the whole
  text or of its last six characters succeeds, and the paste that follows stores the
  terminator at index 256.
\<close>

theorem cut_paste_full_buffer:
  "session_after 0 256 None (Some (replicate 256 65 @ [0])) [] = Inr (prefilled 256) \<and>
   state (prefilled 256) = IME_STATE_ACTIVE \<and> output_length (prefilled 256) = 256 \<and>
   max_output_length (prefilled 256) = 256 \<and>
   \<not> isl (session_after 0 256 None (Some (replicate 256 65 @ [0])) [SelectAll, Cut]) \<and>
   session_after 0 256 None (Some (replicate 256 65 @ [0])) [SelectAll, Cut, Paste] =
     Inl (StoreOutOfBounds 256) \<and>
   \<not> isl (session_after 0 256 None (Some (replicate 256 65 @ [0])) [SetSelection 250 256, Cut]) \<and>
   session_after 0 256 None (Some (replicate 256 65 @ [0])) [SetSelection 250 256, Cut, Paste] =
     Inl (StoreOutOfBounds 256)"
proof -
  have "ime_calls [SelectAll, Cut, Paste] (prefilled 256) = Inl (StoreOutOfBounds 256)"
    "ime_calls [SetSelection 250 256, Cut, Paste] (prefilled 256) = Inl (StoreOutOfBounds 256)"
    "\<not> isl (ime_calls [SelectAll, Cut] (prefilled 256))"
    "\<not> isl (ime_calls [SetSelection 250 256, Cut] (prefilled 256))"
    "state (prefilled 256) = IME_STATE_ACTIVE \<and> output_length (prefilled 256) = 256 \<and>
       max_output_length (prefilled 256) = 256"
    by (code_simp, code_simp, code_simp, code_simp, code_simp)
  then show ?thesis unfolding session_after_256 by simp
qed

end
